theory Spec2Isabelle
  imports Main
begin

section \<open>Strings and numbers of the host language\<close>







section \<open>Time values: the abstract operations behind the host's \<open>Date\<close>\<close>

text \<open>
  A \<open>Date\<close> object holds a time value: a whole number of milliseconds since the epoch of
  magnitude at most 8.64e15, or NaN (an invalid date). The calendar functions below are
  the abstract operations of the language standard. The standard defines the year of a
  day as the largest year starting at or before it; \<open>YearFromDay\<close> computes it from an
  estimate that is off by at most one.
\<close>

definition msPerDay :: int where
  "msPerDay = 86400000"

definition msPerHour :: int where
  "msPerHour = 3600000"

definition msPerMinute :: int where
  "msPerMinute = 60000"

definition maxTime :: int where
  "maxTime = 8640000000000000"

definition Day :: "int \<Rightarrow> int" where
  "Day t = t div msPerDay"

definition TimeWithinDay :: "int \<Rightarrow> int" where
  "TimeWithinDay t = t mod msPerDay"

definition InLeapYear :: "int \<Rightarrow> bool" where
  "InLeapYear y = (y mod 4 = 0 \<and> y mod 100 \<noteq> 0 \<or> y mod 400 = 0)"

definition DaysInYear :: "int \<Rightarrow> int" where
  "DaysInYear y = (if InLeapYear y then 366 else 365)"

definition DayFromYear :: "int \<Rightarrow> int" where
  "DayFromYear y = 365 * (y - 1970) + (y - 1969) div 4 - (y - 1901) div 100 + (y - 1601) div 400"

definition YearFromDay :: "int \<Rightarrow> int" where
  "YearFromDay d =
     (let e = 1970 + (400 * d) div 146097
      in if d < DayFromYear e then e - 1
         else if DayFromYear (e + 1) \<le> d then e + 1
         else e)"

definition YearFromTime :: "int \<Rightarrow> int" where
  "YearFromTime t = YearFromDay (Day t)"

definition DayWithinYear :: "int \<Rightarrow> int" where
  "DayWithinYear t = Day t - DayFromYear (YearFromTime t)"

text \<open>The number of days of a year before its month \<open>m\<close> (0 is January), \<open>l\<close> being 1 in a leap year.\<close>

definition DayFromMonth :: "int \<Rightarrow> int \<Rightarrow> int" where
  "DayFromMonth m l =
     (if m = 0 then 0 else if m = 1 then 31
      else [59, 90, 120, 151, 181, 212, 243, 273, 304, 334] ! nat (m - 2) + l)"

definition leap_day :: "int \<Rightarrow> int" where
  "leap_day y = (if InLeapYear y then 1 else 0)"

definition MonthFromTime :: "int \<Rightarrow> int" where
  "MonthFromTime t =
     (let d = DayWithinYear t; l = leap_day (YearFromTime t)
      in if d < 31 then 0
         else if d < 59 + l then 1
         else if d < 90 + l then 2
         else if d < 120 + l then 3
         else if d < 151 + l then 4
         else if d < 181 + l then 5
         else if d < 212 + l then 6
         else if d < 243 + l then 7
         else if d < 273 + l then 8
         else if d < 304 + l then 9
         else if d < 334 + l then 10
         else 11)"

definition DateFromTime :: "int \<Rightarrow> int" where
  "DateFromTime t =
     DayWithinYear t - DayFromMonth (MonthFromTime t) (leap_day (YearFromTime t)) + 1"

definition MakeDay :: "int \<Rightarrow> int \<Rightarrow> int \<Rightarrow> int" where
  "MakeDay year month date =
     (let ym = year + month div 12; mn = month mod 12
      in DayFromYear ym + DayFromMonth mn (leap_day ym) + date - 1)"

definition MakeDate :: "int \<Rightarrow> int \<Rightarrow> int" where
  "MakeDate day time = day * msPerDay + time"

section \<open>\<open>Date\<close> objects\<close>

datatype Date = Invalid_Date | Time int

text \<open>\<open>new Date(v)\<close> clips: a value beyond the range makes an invalid date.\<close>

definition new_Date :: "int \<Rightarrow> Date" where
  "new_Date v = (if \<bar>v\<bar> \<le> maxTime then Time v else Invalid_Date)"

text \<open>
  The local time zone is a parameter \<open>tz\<close>: the value \<open>getTimezoneOffset()\<close> returns, in
  minutes (UTC minus local time). The model is of a zone with a fixed offset, such as
  UTC; a zone that changes its offset in the course of the year is outside it.
\<close>

definition valid_zone :: "int \<Rightarrow> bool" where
  "valid_zone tz = (- 1440 < tz \<and> tz < 1440)"

definition LocalTime :: "int \<Rightarrow> int \<Rightarrow> int" where
  "LocalTime tz t = t - tz * msPerMinute"

definition UTC :: "int \<Rightarrow> int \<Rightarrow> int" where
  "UTC tz t = t + tz * msPerMinute"

text \<open>A number that is an integer or NaN is an \<open>int option\<close>, \<open>None\<close> being NaN.\<close>

definition getTimezoneOffset :: "int \<Rightarrow> Date \<Rightarrow> int option" where
  "getTimezoneOffset tz d = (case d of Invalid_Date \<Rightarrow> None | Time t \<Rightarrow> Some tz)"

definition getFullYear :: "int \<Rightarrow> Date \<Rightarrow> int option" where
  "getFullYear tz d = (case d of Invalid_Date \<Rightarrow> None | Time t \<Rightarrow> Some (YearFromTime (LocalTime tz t)))"

definition getDate :: "int \<Rightarrow> Date \<Rightarrow> int option" where
  "getDate tz d = (case d of Invalid_Date \<Rightarrow> None | Time t \<Rightarrow> Some (DateFromTime (LocalTime tz t)))"

definition setDate :: "int \<Rightarrow> Date \<Rightarrow> int option \<Rightarrow> Date" where
  "setDate tz d dt =
     (case (d, dt) of
        (Time t, Some n) \<Rightarrow>
          (let l = LocalTime tz t;
               newDate = MakeDate (MakeDay (YearFromTime l) (MonthFromTime l) n) (TimeWithinDay l)
           in new_Date (UTC tz newDate))
      | _ \<Rightarrow> Invalid_Date)"

text \<open>\<open>setFullYear(y)\<close> keeps month, day and time of day; an invalid date starts from time 0.\<close>

definition setFullYear :: "int \<Rightarrow> Date \<Rightarrow> int option \<Rightarrow> Date" where
  "setFullYear tz d year =
     (let l = (case d of Invalid_Date \<Rightarrow> 0 | Time t \<Rightarrow> LocalTime tz t)
      in case year of
           None \<Rightarrow> Invalid_Date
         | Some y \<Rightarrow>
             new_Date (UTC tz (MakeDate (MakeDay y (MonthFromTime l) (DateFromTime l)) (TimeWithinDay l))))"

section \<open>The \<open>date-fns\<close> functions the program calls\<close>

text \<open>
  \<open>date-fns\<close> is a library, not code of the repository: its functions are modelled by what
  version 3 does on the arguments the program passes. All of them return a new object.
\<close>

definition addMilliseconds :: "Date \<Rightarrow> int option \<Rightarrow> Date" where
  "addMilliseconds d amount =
     (case (d, amount) of (Time t, Some a) \<Rightarrow> new_Date (t + a) | _ \<Rightarrow> Invalid_Date)"

definition addMinutes :: "Date \<Rightarrow> int option \<Rightarrow> Date" where
  "addMinutes d amount = addMilliseconds d (map_option (\<lambda>a. a * msPerMinute) amount)"

definition addHours :: "Date \<Rightarrow> int option \<Rightarrow> Date" where
  "addHours d amount = addMilliseconds d (map_option (\<lambda>a. a * msPerHour) amount)"

text \<open>
  \<open>addDays\<close> returns the date as it is for an amount of zero and otherwise calls
  \<open>setDate(getDate() + amount)\<close>, which is calendar arithmetic in local time.
\<close>

definition addDays :: "int \<Rightarrow> Date \<Rightarrow> int \<Rightarrow> Date" where
  "addDays tz d amount =
     (if amount = 0 then d
      else setDate tz d (map_option (\<lambda>g. g + amount) (getDate tz d)))"

definition isDigit :: "char \<Rightarrow> bool" where
  "isDigit c = (c \<in> set ''0123456789'')"

definition digit_val :: "char \<Rightarrow> int" where
  "digit_val c = of_char c - 48"

text \<open>
  \<open>parseInt(s, 10)\<close> of a string of digits. The host computes in floating point, which
  is exact up to \<open>2^53\<close>; beyond it the host's value differs from this one, but a day count
  that large leaves the range of dates in the host and here alike.
\<close>

definition parseInt :: "string \<Rightarrow> int" where
  "parseInt s = foldl (\<lambda>a c. 10 * a + digit_val c) 0 s"

definition DaysInMonth :: "int \<Rightarrow> int \<Rightarrow> int" where
  "DaysInMonth y m =
     (if m = 2 \<and> InLeapYear y then 29
      else [31, 28, 31, 30, 31, 30, 31, 31, 30, 31, 30, 31] ! nat (m - 1))"

text \<open>
  \<open>parse(s, 'yyyy-MM-dd', new Date())\<close> on a string of the shape \<open>dddd-dd-dd\<close>, the only
  strings the program passes: the year must be positive, the month in 1..12 and the day
  within the month, otherwise the result is an invalid date; the result is local midnight
  of that calendar day.
\<close>

definition parse_yyyy_MM_dd :: "int \<Rightarrow> string \<Rightarrow> Date" where
  "parse_yyyy_MM_dd tz s =
     (let y = parseInt (take 4 s); m = parseInt (take 2 (drop 5 s)); d = parseInt (drop 8 s)
      in if 1 \<le> y \<and> 1 \<le> m \<and> m \<le> 12 \<and> 1 \<le> d \<and> d \<le> DaysInMonth y m
         then new_Date (UTC tz (MakeDate (MakeDay y (m - 1) d) 0))
         else Invalid_Date)"

section \<open>\<open>src/L_time.ts\<close>\<close>

datatype range_error = BeforeMin | AfterMax "int option"

datatype error =
    GitUnavailable
  | RepositoryNotClean
  | InvalidDirection
  | RelativeBeforeDate
  | ImpossibleOnlyDate
  | ImpossibleFullTime
  | InvalidInputFormat
  | RangeError_InvalidTime
  | DateNotAcceptable Date range_error
  | CommitError Date
  | HardResetError

definition parseDate :: "int \<Rightarrow> string \<Rightarrow> Date" where
  "parseDate tz dateStr = parse_yyyy_MM_dd tz dateStr"

text \<open>
  \<open>toISOString\<close> throws a \<open>RangeError\<close> on an invalid date. The string of a valid date
  denotes its time value to the millisecond and \<open>new Date\<close> of the string reads that value
  back, so the string is represented by the time value.
\<close>

definition toISOString :: "Date \<Rightarrow> error + int" where
  "toISOString d = (case d of Invalid_Date \<Rightarrow> Inl RangeError_InvalidTime | Time t \<Rightarrow> Inr t)"

definition normalizeDate :: "int \<Rightarrow> Date \<Rightarrow> error + Date" where
  "normalizeDate tz date =
     (let timezoneOffset = getTimezoneOffset tz date;
          utcAdjustedDate = addMinutes (addHours date (Some 1)) (map_option uminus timezoneOffset)
      in case toISOString utcAdjustedDate of
           Inl e \<Rightarrow> Inl e
         | Inr isoString \<Rightarrow> Inr (new_Date isoString))"

text \<open>\<open>futureNow\<close> is computed once from the clock; \<open>now\<close> is the clock's reading.\<close>

definition futureNow :: "int \<Rightarrow> Date \<Rightarrow> Date" where
  "futureNow tz now = setFullYear tz now (map_option (\<lambda>y. y + 74) (getFullYear tz now))"

subsection \<open>\<open>formatMilliseconds\<close>\<close>




section \<open>\<open>mod.ts\<close>: preparing the dates\<close>

text \<open>
  The tests \<open>/^\d+$/\<close> and \<open>/^\d{4}-\d{2}-\d{2}$/\<close> on an item of the argument list, after
  \<open>toString()\<close>.
\<close>

definition is_relative :: "string \<Rightarrow> bool" where
  "is_relative item = (item \<noteq> [] \<and> list_all isDigit item)"

definition is_date :: "string \<Rightarrow> bool" where
  "is_date item =
     (length item = 10 \<and> list_all isDigit (take 4 item) \<and> item ! 4 = CHR ''-'' \<and>
      list_all isDigit (take 2 (drop 5 item)) \<and> item ! 7 = CHR ''-'' \<and>
      list_all isDigit (drop 8 item))"

text \<open>
  The two variables of the closure and the array \<open>dates\<close> it pushes to. A \<open>Date\<close> object is
  truthy also when it is invalid, so \<open>if (previousDate)\<close> tests for \<open>null\<close> only.
\<close>

record resolver =
  previousDate :: "Date option"
  previousDate_onlyDate :: "Date option"
  dates :: "Date list"

definition resolver_init :: resolver where
  "resolver_init = \<lparr>previousDate = None, previousDate_onlyDate = None, dates = []\<rparr>"

text \<open>
  \<open>thisDate.getTime() === previous?.getTime()\<close>: false when \<open>previous\<close> is \<open>null\<close> (the
  right side is \<open>undefined\<close>) and when either time value is NaN.
\<close>

definition same_time :: "Date \<Rightarrow> Date option \<Rightarrow> bool" where
  "same_time thisDate previous =
     (case (thisDate, previous) of (Time a, Some (Time b)) \<Rightarrow> a = b | _ \<Rightarrow> False)"

text \<open>The end of the loop body: \<open>previousDate = thisDate; dates.push(normalizeDate(thisDate))\<close>.\<close>

definition push_date :: "int \<Rightarrow> Date \<Rightarrow> resolver \<Rightarrow> error + resolver" where
  "push_date tz thisDate st =
     (case normalizeDate tz thisDate of
        Inl e \<Rightarrow> Inl e
      | Inr n \<Rightarrow> Inr (st\<lparr>previousDate := Some thisDate, dates := dates st @ [n]\<rparr>))"

definition resolve_item :: "int \<Rightarrow> int \<Rightarrow> resolver \<Rightarrow> string \<Rightarrow> error + resolver" where
  "resolve_item tz dir st item =
     (if is_relative item then
        (let daysToAdd = parseInt item * dir
         in case previousDate st of
              Some pd \<Rightarrow>
                if daysToAdd = 0 then push_date tz (addMinutes pd (Some 1)) st
                else
                  (case previousDate_onlyDate st of
                     None \<Rightarrow> Inl ImpossibleOnlyDate
                   | Some od \<Rightarrow>
                       (let thisDate = addDays tz od daysToAdd
                        in push_date tz thisDate (st\<lparr>previousDate_onlyDate := Some thisDate\<rparr>)))
            | None \<Rightarrow> Inl RelativeBeforeDate)
      else if is_date item then
        (let thisDate = parseDate tz item
         in if same_time thisDate (previousDate st) then
              push_date tz (addMinutes thisDate (Some 1)) st
            else if same_time thisDate (previousDate_onlyDate st) then
              (case previousDate st of
                 None \<Rightarrow> Inl ImpossibleFullTime
               | Some pd \<Rightarrow> push_date tz (addMinutes pd (Some 1)) st)
            else push_date tz thisDate (st\<lparr>previousDate_onlyDate := Some thisDate\<rparr>))
      else Inl InvalidInputFormat)"

text \<open>\<open>config._.forEach\<close>: the first item that throws ends the loop.\<close>

fun resolve_items :: "int \<Rightarrow> int \<Rightarrow> resolver \<Rightarrow> string list \<Rightarrow> error + resolver" where
  "resolve_items tz dir st [] = Inr st"
| "resolve_items tz dir st (item # items) =
     (case resolve_item tz dir st item of
        Inl e \<Rightarrow> Inl e
      | Inr st' \<Rightarrow> resolve_items tz dir st' items)"

text \<open>
  The whole closure: the direction flag is checked first, when it is a non-empty string;
  then the items are resolved in order.
\<close>

definition prepare_dates :: "int \<Rightarrow> string \<Rightarrow> string list \<Rightarrow> error + Date list" where
  "prepare_dates tz direction items =
     (if direction \<noteq> [] \<and> direction \<noteq> ''+'' \<and> direction \<noteq> ''-'' then Inl InvalidDirection
      else
        (let dir = (if direction = ''+'' then 1 else - 1)
         in case resolve_items tz dir resolver_init items of
              Inl e \<Rightarrow> Inl e
            | Inr st \<Rightarrow> Inr (dates st)))"

text \<open>
  A well-formed item passes one of the two tests; \<open>offsets_sum\<close> adds up the day counts
  of the relative items of a list.
\<close>

definition well_formed :: "string \<Rightarrow> bool" where
  "well_formed item = (is_relative item \<or> is_date item)"

definition offsets_sum :: "string list \<Rightarrow> int" where
  "offsets_sum items = sum_list (map parseInt (filter is_relative items))"


section \<open>\<open>src/L_git.ts\<close>: the repository behind the git commands\<close>

text \<open>
  The program reaches the repository only by running git commands. The repository is
  modelled by what those commands read and write. A commit hash stands for the chain of
  commits that it heads, so the head is the list of the commits, newest first. A commit
  made for a date carries that date; the other commits are dated with \<open>futureNowString\<close>
  and carry their message. \<open>ops\<close> records the commands that change the repository, in
  the order in which they ran.
\<close>

datatype commit = Dated Date | Future string

datatype git_op = GitInit | GitCommit commit | SoftResetToRoot | HardReset "commit list"

record world =
  git_available :: bool
  is_repo :: bool
  clean :: bool
  head :: "commit list"
  ops :: "git_op list"

definition initializeGitRepository :: "world \<Rightarrow> world" where
  "initializeGitRepository w = w\<lparr>is_repo := True, ops := ops w @ [GitInit]\<rparr>"

definition createInitialCommit :: "world \<Rightarrow> world" where
  "createInitialCommit w =
     w\<lparr>clean := True, head := Future ''INIT'' # head w, ops := ops w @ [GitCommit (Future ''INIT'')]\<rparr>"

definition commit :: "Date \<Rightarrow> world \<Rightarrow> world" where
  "commit date w = w\<lparr>head := Dated date # head w, ops := ops w @ [GitCommit (Dated date)]\<rparr>"

definition getCommitCount :: "world \<Rightarrow> nat" where
  "getCommitCount w = length (head w)"

text \<open>A soft reset to the root commit, then one commit of everything on top of it.\<close>

definition resetRepository :: "string \<Rightarrow> world \<Rightarrow> world" where
  "resetRepository commitMsg w =
     w\<lparr>clean := True, head := [Future commitMsg, last (head w)],
       ops := ops w @ [SoftResetToRoot, GitCommit (Future commitMsg)]\<rparr>"

definition cleanRepository :: "string \<Rightarrow> world \<Rightarrow> world" where
  "cleanRepository commitMsg w =
     w\<lparr>clean := True, head := Future commitMsg # head w,
       ops := ops w @ [GitCommit (Future commitMsg)]\<rparr>"

definition getCurrentCommitHash :: "world \<Rightarrow> commit list" where
  "getCurrentCommitHash w = head w"

definition hardResetToCommit :: "commit list \<Rightarrow> world \<Rightarrow> world" where
  "hardResetToCommit commitHash w =
     w\<lparr>clean := True, head := commitHash, ops := ops w @ [HardReset commitHash]\<rparr>"

text \<open>
  A command throws when it cannot be run. \<open>commit_throws i\<close> tells whether the call of
  \<open>commit\<close> at index \<open>i\<close> of the loop of \<open>processDateStrings\<close> throws, \<open>reset_throws\<close>
  whether the hard reset does. A commit that throws leaves the repository as it was.
\<close>

record faults =
  commit_throws :: "nat \<Rightarrow> bool"
  reset_throws :: bool

section \<open>\<open>src/date_to_commit.ts\<close>\<close>

text \<open>
  \<open>stringifyDate\<close> is \<open>formatISO\<close>, which throws a \<open>RangeError\<close> on an invalid date. The
  string of a valid date is represented by the date.
\<close>

definition stringifyDate :: "Date \<Rightarrow> error + Date" where
  "stringifyDate date = (case date of Invalid_Date \<Rightarrow> Inl RangeError_InvalidTime | Time t \<Rightarrow> Inr (Time t))"

fun stringifyDates :: "Date list \<Rightarrow> error + Date list" where
  "stringifyDates [] = Inr []"
| "stringifyDates (d # ds) =
     (case stringifyDate d of
        Inl e \<Rightarrow> Inl e
      | Inr s \<Rightarrow> (case stringifyDates ds of Inl e \<Rightarrow> Inl e | Inr ss \<Rightarrow> Inr (s # ss)))"

text \<open>
  The loop of \<open>processDateStrings\<close> from index \<open>i\<close> on, over the dates that remain. The
  result is the error thrown, if any, and the repository.
\<close>

fun processDateStrings_from :: "bool \<Rightarrow> (nat \<Rightarrow> bool) \<Rightarrow> nat \<Rightarrow> Date list \<Rightarrow> world \<Rightarrow> error option \<times> world" where
  "processDateStrings_from lenient throws i [] w = (None, w)"
| "processDateStrings_from lenient throws i (d # ds) w =
     (if throws i then
        (if lenient then processDateStrings_from lenient throws (Suc i) ds w
         else (Some (CommitError d), w))
      else processDateStrings_from lenient throws (Suc i) ds (commit d w))"

definition processDateStrings :: "bool \<Rightarrow> (nat \<Rightarrow> bool) \<Rightarrow> Date list \<Rightarrow> world \<Rightarrow> error option \<times> world" where
  "processDateStrings lenient throws ds w = processDateStrings_from lenient throws 0 ds w"

text \<open>Comparisons of numbers that may be NaN: false when either side is NaN.\<close>

definition num_less :: "int option \<Rightarrow> int option \<Rightarrow> bool" where
  "num_less a b = (case (a, b) of (Some x, Some y) \<Rightarrow> x < y | _ \<Rightarrow> False)"

text \<open>The body of the \<open>try\<close> in the filter of \<open>processDates\<close>: the error it throws, if any.\<close>

definition check_date :: "int \<Rightarrow> Date \<Rightarrow> Date \<Rightarrow> range_error option" where
  "check_date tz now date =
     (let year = getFullYear tz date
      in if num_less year (Some 1970) then Some BeforeMin
         else
           (let future = map_option (\<lambda>y. y - 1) (getFullYear tz (futureNow tz now))
            in if num_less future year then Some (AfterMax future) else None))"

text \<open>
  \<open>dates.filter\<close> with the \<open>catch\<close> of its callback: under \<open>let-it-go\<close> a date that fails
  is left out, otherwise the error ends the filter.
\<close>

fun filter_dates :: "bool \<Rightarrow> int \<Rightarrow> Date \<Rightarrow> Date list \<Rightarrow> error + Date list" where
  "filter_dates lenient tz now [] = Inr []"
| "filter_dates lenient tz now (d # ds) =
     (case check_date tz now d of
        None \<Rightarrow> (case filter_dates lenient tz now ds of Inl e \<Rightarrow> Inl e | Inr kept \<Rightarrow> Inr (d # kept))
      | Some re \<Rightarrow>
          if lenient then filter_dates lenient tz now ds
          else Inl (DateNotAcceptable d re))"

definition processDates :: "bool \<Rightarrow> int \<Rightarrow> Date \<Rightarrow> (nat \<Rightarrow> bool) \<Rightarrow> Date list \<Rightarrow> world \<Rightarrow> error option \<times> world" where
  "processDates lenient tz now throws ds w =
     (case filter_dates lenient tz now ds of
        Inl e \<Rightarrow> (Some e, w)
      | Inr kept \<Rightarrow>
          (case stringifyDates kept of
             Inl e \<Rightarrow> (Some e, w)
           | Inr strings \<Rightarrow> processDateStrings lenient throws strings w))"

section \<open>\<open>mod.ts\<close>: the run\<close>

text \<open>The flags, and the positional arguments \<open>config._\<close>.\<close>

record config =
  help_flag :: bool
  let_it_go :: bool
  no_commit :: bool
  cleanse :: string
  reset :: string
  direction :: string
  positional :: "string list"

datatype outcome =
    Help_Printed
  | No_Dates
  | No_Commit_Flag
  | Completed
  | Rolled_Back error
  | Module_Failed error

text \<open>
  The checks before the dates are prepared. A string flag is truthy when it is not
  empty. The result is the error thrown, if any, and the repository as the checks leave it.
\<close>

definition preflight :: "config \<Rightarrow> world \<Rightarrow> error option \<times> world" where
  "preflight cfg w =
     (if \<not> git_available w then (Some GitUnavailable, w)
      else
        (let w1 = (if is_repo w then w else initializeGitRepository w)
         in if \<not> clean w1 \<and> cleanse cfg = [] then (Some RepositoryNotClean, w1)
            else
              (let w2 = (if clean w1 then w1 else cleanRepository (cleanse cfg) w1);
                   w3 = (if getCommitCount w2 = 0 then createInitialCommit w2
                         else if reset cfg \<noteq> [] then resetRepository (reset cfg) w2
                         else w2)
               in (None, w3))))"

text \<open>
  The end of the module: the hash of the head is saved, \<open>processDates\<close> runs inside a
  \<open>try\<close>, and the \<open>catch\<close> resets the repository to the saved hash. An error of the reset
  itself reaches the outer \<open>catch\<close>.
\<close>

definition apply_phase :: "config \<Rightarrow> int \<Rightarrow> Date \<Rightarrow> faults \<Rightarrow> Date list \<Rightarrow> world \<Rightarrow> outcome \<times> world" where
  "apply_phase cfg tz now f ds w =
     (let theHashBeforeCommits = getCurrentCommitHash w
      in case processDates (let_it_go cfg) tz now (commit_throws f) ds w of
           (None, w') \<Rightarrow> (Completed, w')
         | (Some e, w') \<Rightarrow>
             if reset_throws f then (Module_Failed HardResetError, w')
             else (Rolled_Back e, hardResetToCommit theHashBeforeCommits w'))"

definition run :: "config \<Rightarrow> int \<Rightarrow> Date \<Rightarrow> faults \<Rightarrow> world \<Rightarrow> outcome \<times> world" where
  "run cfg tz now f w =
     (if help_flag cfg then (Help_Printed, w)
      else
        (case preflight cfg w of
           (Some e, w') \<Rightarrow> (Module_Failed e, w')
         | (None, w') \<Rightarrow>
             if positional cfg = [] then (No_Dates, w')
             else
               (case prepare_dates tz (direction cfg) (positional cfg) of
                  Inl e \<Rightarrow> (Module_Failed e, w')
                | Inr ds \<Rightarrow>
                    if no_commit cfg then (No_Commit_Flag, w')
                    else apply_phase cfg tz now f ds w')))"

section \<open>The calendar\<close>

text \<open>
  \<open>YearFromDay\<close> meets the standard's definition: the year it returns starts at or before
  the day, the next year starts after it, and it is the only such year.
\<close>

lemma div_succ:
  assumes "0 < (k::int)"
  shows "(n + 1) div k = (if (n + 1) mod k = 0 then n div k + 1 else n div k)"
proof -
  define q r where "q = n div k" and "r = n mod k"
  have n: "n = k * q + r" and r: "0 \<le> r" "r < k"
    using assms by (simp_all add: q_def r_def)
  show ?thesis
  proof (cases "r + 1 = k")
    case True
    have e: "n + 1 = k * (q + 1) + 0" using n True by (simp add: algebra_simps)
    have "(n + 1) div k = q + 1" by (rule int_div_pos_eq [OF e]) (use assms in simp_all)
    moreover have "(n + 1) mod k = 0" by (rule int_mod_pos_eq [OF e]) (use assms in simp_all)
    ultimately show ?thesis by (simp add: q_def)
  next
    case False
    have e: "n + 1 = k * q + (r + 1)" using n by simp
    have lt: "r + 1 < k" using r False by linarith
    have "(n + 1) div k = q" by (rule int_div_pos_eq [OF e]) (use r lt in simp_all)
    moreover have "(n + 1) mod k = r + 1" by (rule int_mod_pos_eq [OF e]) (use r lt in simp_all)
    ultimately show ?thesis using r by (simp add: q_def)
  qed
qed

lemma mod_shift: "(y - k * c) mod k = y mod (k::int)"
  by (metis mod_mult_self1 diff_add_cancel mult.commute)

lemma m4: "(y - 1968) mod 4 = y mod (4::int)" using mod_shift [of y 4 492] by simp

lemma m100: "(y - 1900) mod 100 = y mod (100::int)" using mod_shift [of y 100 19] by simp

lemma m400: "(y - 1600) mod 400 = y mod (400::int)" using mod_shift [of y 400 4] by simp

lemma d4: "(y - 1968) div 4 = (if y mod 4 = 0 then (y - 1969) div 4 + 1 else (y - 1969) div (4::int))"
  using div_succ [of 4 "y - 1969"] by (simp add: m4)

lemma d100: "(y - 1900) div 100 = (if y mod 100 = 0 then (y - 1901) div 100 + 1 else (y - 1901) div (100::int))"
  using div_succ [of 100 "y - 1901"] by (simp add: m100)

lemma d400: "(y - 1600) div 400 = (if y mod 400 = 0 then (y - 1601) div 400 + 1 else (y - 1601) div (400::int))"
  using div_succ [of 400 "y - 1601"] by (simp add: m400)

lemma mod_400_100: "y mod 400 = 0 \<Longrightarrow> y mod 100 = (0::int)"
  using mod_mod_cancel [of 100 400 y] by simp

lemma mod_100_4: "y mod 100 = 0 \<Longrightarrow> y mod 4 = (0::int)"
  using mod_mod_cancel [of 4 100 y] by simp

lemma DayFromYear_Suc: "DayFromYear (y + 1) = DayFromYear y + DaysInYear y"
proof -
  have "DayFromYear (y + 1) =
      365 * (y - 1969) + (y - 1968) div 4 - (y - 1900) div 100 + (y - 1600) div 400"
    by (simp add: DayFromYear_def)
  then show ?thesis
    using mod_400_100 [of y] mod_100_4 [of y]
    by (auto simp add: d4 d100 d400 DayFromYear_def DaysInYear_def InLeapYear_def)
qed

lemma div_bounds: "0 < k \<Longrightarrow> k * (n div k) \<le> n \<and> n < k * (n div k) + (k::int)"
  using pos_mod_bound [of k n] pos_mod_sign [of k n] mult_div_mod_eq [of k n] by linarith

lemma DayFromYear_bounds:
  "400 * DayFromYear y \<le> 146097 * y - 287810498 \<and>
   146097 * y - 287811982 < 400 * DayFromYear y"
proof -
  define a b c where "a = (y - 1969) div 4" and "b = (y - 1901) div 100" and "c = (y - 1601) div 400"
  have "4 * a \<le> y - 1969" "y - 1969 < 4 * a + 4"
    using div_bounds [of 4 "y - 1969"] by (simp_all add: a_def)
  moreover have "100 * b \<le> y - 1901" "y - 1901 < 100 * b + 100"
    using div_bounds [of 100 "y - 1901"] by (simp_all add: b_def)
  moreover have "400 * c \<le> y - 1601" "y - 1601 < 400 * c + 400"
    using div_bounds [of 400 "y - 1601"] by (simp_all add: c_def)
  moreover have "DayFromYear y = 365 * y - 719050 + a - b + c"
    by (simp add: DayFromYear_def a_def b_def c_def)
  ultimately show ?thesis by linarith
qed

lemma est_lower: "DayFromYear (1970 + (400 * d) div 146097 - 1) \<le> d"
proof -
  define x where "x = (400 * d) div 146097"
  define D where "D = DayFromYear (1969 + x)"
  have "146097 * x \<le> 400 * d"
    using div_bounds [of 146097 "400 * d"] by (simp add: x_def)
  moreover have "400 * D \<le> 146097 * x - 145505"
    using DayFromYear_bounds [of "1969 + x"] by (simp add: D_def)
  ultimately have "D \<le> d" by linarith
  then show ?thesis by (simp add: D_def x_def)
qed

lemma est_upper: "d < DayFromYear (1970 + (400 * d) div 146097 + 2)"
proof -
  define x where "x = (400 * d) div 146097"
  define D where "D = DayFromYear (1972 + x)"
  have "400 * d < 146097 * x + 146097"
    using div_bounds [of 146097 "400 * d"] by (simp add: x_def)
  moreover have "146097 * x + 291302 < 400 * D"
    using DayFromYear_bounds [of "1972 + x"] by (simp add: D_def)
  ultimately have "d < D" by linarith
  then show ?thesis by (simp add: D_def x_def)
qed

lemma YearFromDay_spec:
  "DayFromYear (YearFromDay d) \<le> d \<and> d < DayFromYear (YearFromDay d + 1)"
  using est_lower [of d] est_upper [of d]
  by (simp add: YearFromDay_def Let_def add.commute)

lemma DaysInYear_pos: "0 < DaysInYear y"
  by (simp add: DaysInYear_def)

lemma DayFromYear_mono_aux: "0 \<le> k \<Longrightarrow> DayFromYear y \<le> DayFromYear (y + k)"
proof (induction k rule: int_ge_induct)
  case base
  then show ?case by simp
next
  case (step i)
  have "DayFromYear (y + (i + 1)) = DayFromYear (y + i) + DaysInYear (y + i)"
    using DayFromYear_Suc [of "y + i"] by (simp add: add.assoc)
  with step DaysInYear_pos [of "y + i"] show ?case by linarith
qed

lemma DayFromYear_mono: "y \<le> z \<Longrightarrow> DayFromYear y \<le> DayFromYear z"
  using DayFromYear_mono_aux [of "z - y" y] by simp

lemma YearFromDay_unique:
  assumes "DayFromYear y \<le> d" "d < DayFromYear (y + 1)"
  shows "YearFromDay d = y"
proof -
  let ?z = "YearFromDay d"
  have z: "DayFromYear ?z \<le> d" "d < DayFromYear (?z + 1)"
    using YearFromDay_spec [of d] by simp_all
  have "\<not> ?z + 1 \<le> y"
    using DayFromYear_mono [of "?z + 1" y] z assms by linarith
  moreover have "\<not> y + 1 \<le> ?z"
    using DayFromYear_mono [of "y + 1" ?z] z assms by linarith
  ultimately show ?thesis by linarith
qed

lemma MonthFromTime_range: "0 \<le> MonthFromTime t \<and> MonthFromTime t \<le> 11"
  by (simp add: MonthFromTime_def Let_def)

lemma MakeDay_same_month:
  "MakeDay (YearFromTime l) (MonthFromTime l) (DateFromTime l + n) = Day l + n"
proof -
  have "MonthFromTime l div 12 = 0" "MonthFromTime l mod 12 = MonthFromTime l"
    using MonthFromTime_range [of l] by simp_all
  then show ?thesis
    by (simp add: MakeDay_def DateFromTime_def DayWithinYear_def Let_def)
qed

lemma MakeDate_Day: "MakeDate (Day l + n) (TimeWithinDay l) = l + n * msPerDay"
  by (simp add: MakeDate_def Day_def TimeWithinDay_def algebra_simps)

lemma addDays_Time:
  "amount \<noteq> 0 \<Longrightarrow> addDays tz (Time t) amount = new_Date (t + amount * msPerDay)"
  by (simp add: addDays_def setDate_def getDate_def Let_def MakeDay_same_month MakeDate_Day
      UTC_def LocalTime_def)

section \<open>Items, dates and their bounds\<close>

lemma digit_val_range: "isDigit c \<Longrightarrow> 0 \<le> digit_val c \<and> digit_val c \<le> 9"
  by (auto simp add: isDigit_def digit_val_def)

lemma parseInt_snoc: "parseInt (xs @ [c]) = 10 * parseInt xs + digit_val c"
  by (simp add: parseInt_def)

lemma parseInt_bounds:
  "list_all isDigit xs \<Longrightarrow> 0 \<le> parseInt xs \<and> parseInt xs < 10 ^ length xs"
proof (induction xs rule: rev_induct)
  case Nil
  then show ?case by (simp add: parseInt_def)
next
  case (snoc c xs)
  then have ih: "0 \<le> parseInt xs" "parseInt xs < 10 ^ length xs" and c: "isDigit c"
    by simp_all
  from c have "0 \<le> digit_val c" "digit_val c \<le> 9" using digit_val_range by simp_all
  with ih show ?case by (simp add: parseInt_snoc)
qed

lemma is_date_not_relative: "is_date item \<Longrightarrow> \<not> is_relative item"
proof
  assume d: "is_date item" and r: "is_relative item"
  from d have len: "4 < length item" and dash: "item ! 4 = CHR ''-''"
    by (simp_all add: is_date_def)
  from r have "list_all isDigit item" by (simp add: is_relative_def)
  with len have "isDigit (item ! 4)" by (simp add: list_all_length)
  with dash show False by (simp add: isDigit_def)
qed

lemma DayFromMonth_range:
  assumes "0 \<le> m" "m \<le> 11" "0 \<le> l" "l \<le> 1"
  shows "0 \<le> DayFromMonth m l \<and> DayFromMonth m l \<le> 335"
proof (cases "m = 0 \<or> m = 1")
  case True
  then show ?thesis by (auto simp add: DayFromMonth_def)
next
  case False
  define tab :: "int list" where "tab = [59, 90, 120, 151, 181, 212, 243, 273, 304, 334]"
  have "nat (m - 2) < length tab" using assms False by (simp add: tab_def)
  then have "tab ! nat (m - 2) \<in> set tab" by (rule nth_mem)
  then have "59 \<le> tab ! nat (m - 2) \<and> tab ! nat (m - 2) \<le> 334"
    by (auto simp add: tab_def)
  moreover have "DayFromMonth m l = tab ! nat (m - 2) + l"
    using False by (simp add: DayFromMonth_def tab_def)
  ultimately show ?thesis using assms by simp
qed

lemma DaysInMonth_le:
  assumes "1 \<le> m" "m \<le> 12"
  shows "DaysInMonth y m \<le> 31"
proof -
  define tab :: "int list" where "tab = [31, 28, 31, 30, 31, 30, 31, 31, 30, 31, 30, 31]"
  have "nat (m - 1) < length tab" using assms by (simp add: tab_def)
  then have "tab ! nat (m - 1) \<in> set tab" by (rule nth_mem)
  then have "tab ! nat (m - 1) \<le> 31" by (auto simp add: tab_def)
  then show ?thesis by (simp add: DaysInMonth_def tab_def)
qed

lemma leap_day_range: "0 \<le> leap_day y \<and> leap_day y \<le> 1"
  by (simp add: leap_day_def)

lemma DayFromYear_1: "DayFromYear 1 = - 719162"
  by (simp add: DayFromYear_def)

lemma DayFromYear_9999: "DayFromYear 9999 = 2932532"
  by (simp add: DayFromYear_def)

lemma MakeDay_bounds:
  assumes "1 \<le> y" "y \<le> 9999" "1 \<le> m" "m \<le> 12" "1 \<le> d" "d \<le> 31"
  shows "- 719162 \<le> MakeDay y (m - 1) d \<and> MakeDay y (m - 1) d \<le> 2932897"
proof -
  have m: "(m - 1) div 12 = 0" "(m - 1) mod 12 = m - 1" using assms by simp_all
  have "DayFromYear 1 \<le> DayFromYear y" "DayFromYear y \<le> DayFromYear 9999"
    using assms DayFromYear_mono by simp_all
  moreover have "0 \<le> DayFromMonth (m - 1) (leap_day y)" "DayFromMonth (m - 1) (leap_day y) \<le> 335"
    using DayFromMonth_range [of "m - 1" "leap_day y"] leap_day_range [of y] assms by simp_all
  ultimately show ?thesis
    using assms by (simp add: MakeDay_def m DayFromYear_1 DayFromYear_9999)
qed

lemma parseDate_bounds:
  assumes "valid_zone tz" "is_date item" "parseDate tz item = Time t"
  shows "\<bar>t\<bar> \<le> 260000000000000"
proof -
  define y m d where "y = parseInt (take 4 item)" and "m = parseInt (take 2 (drop 5 item))"
    and "d = parseInt (drop 8 item)"
  have ok: "1 \<le> y \<and> 1 \<le> m \<and> m \<le> 12 \<and> 1 \<le> d \<and> d \<le> DaysInMonth y m"
    using assms(3) by (auto simp add: parseDate_def parse_yyyy_MM_dd_def Let_def y_def m_def d_def split: if_splits)
  have "list_all isDigit (take 4 item)" "length (take 4 item) = 4"
    using assms(2) by (simp_all add: is_date_def)
  then have y9: "y \<le> 9999" using parseInt_bounds [of "take 4 item"] by (simp add: y_def)
  have d31: "d \<le> 31" using ok DaysInMonth_le [of m y] by linarith
  have md: "- 719162 \<le> MakeDay y (m - 1) d" "MakeDay y (m - 1) d \<le> 2932897"
    using MakeDay_bounds [of y m d] ok y9 d31 by simp_all
  have "new_Date (UTC tz (MakeDate (MakeDay y (m - 1) d) 0)) = Time t"
    using assms(3) ok by (simp add: parseDate_def parse_yyyy_MM_dd_def Let_def y_def m_def d_def)
  then have t: "t = MakeDay y (m - 1) d * msPerDay + tz * msPerMinute"
    by (simp add: new_Date_def UTC_def MakeDate_def split: if_splits)
  have "- 719162 * msPerDay \<le> MakeDay y (m - 1) d * msPerDay"
       "MakeDay y (m - 1) d * msPerDay \<le> 2932897 * msPerDay"
    using md by (simp_all add: msPerDay_def)
  moreover have "- 1440 * msPerMinute < tz * msPerMinute" "tz * msPerMinute < 1440 * msPerMinute"
    using assms(1) by (simp_all add: valid_zone_def msPerMinute_def)
  ultimately show ?thesis unfolding t by (simp add: msPerDay_def msPerMinute_def)
qed

lemma normalizeDate_Time:
  assumes "valid_zone tz" "\<bar>t\<bar> \<le> 8600000000000000"
  shows "normalizeDate tz (Time t) = Inr (Time (t + msPerHour - tz * msPerMinute))"
proof -
  have z: "- 1440 * msPerMinute < tz * msPerMinute" "tz * msPerMinute < 1440 * msPerMinute"
    using assms(1) by (simp_all add: valid_zone_def msPerMinute_def)
  have a: "addHours (Time t) (Some 1) = Time (t + msPerHour)"
    using assms(2) by (simp add: addHours_def addMilliseconds_def new_Date_def maxTime_def msPerHour_def)
  have b: "addMinutes (Time (t + msPerHour)) (Some (- tz)) = Time (t + msPerHour - tz * msPerMinute)"
    using assms(2) z
    by (simp add: addMinutes_def addMilliseconds_def new_Date_def maxTime_def msPerHour_def msPerMinute_def)
  have c: "new_Date (t + msPerHour - tz * msPerMinute) = Time (t + msPerHour - tz * msPerMinute)"
    using assms(2) z by (simp add: new_Date_def maxTime_def msPerHour_def msPerMinute_def)
  show ?thesis
    by (simp add: normalizeDate_def getTimezoneOffset_def Let_def a b c toISOString_def)
qed

section \<open>The steps of the resolution\<close>

lemma addMinutes_Time:
  "\<bar>t\<bar> \<le> 8600000000000000 \<Longrightarrow> addMinutes (Time t) (Some 1) = Time (t + msPerMinute)"
  by (simp add: addMinutes_def addMilliseconds_def new_Date_def maxTime_def msPerMinute_def)

lemma push_date_Time:
  assumes "valid_zone tz" "\<bar>t\<bar> \<le> 8600000000000000"
  shows "push_date tz (Time t) st =
     Inr (st\<lparr>previousDate := Some (Time t), dates := dates st @ [Time (t + msPerHour - tz * msPerMinute)]\<rparr>)"
  using normalizeDate_Time [OF assms] by (simp add: push_date_def)

lemma same_time_simps:
  "same_time (Time a) (Some (Time b)) = (a = b)"
  "same_time d None = False"
  "same_time Invalid_Date p = False"
  "same_time d (Some Invalid_Date) = False"
  by (simp_all add: same_time_def split: Date.splits option.splits)

lemma direction_dir:
  "drn = ''+'' \<or> drn = ''-'' \<Longrightarrow>
   prepare_dates tz drn items =
     (case resolve_items tz (if drn = ''+'' then 1 else - 1) resolver_init items of
        Inl e \<Rightarrow> Inl e | Inr st \<Rightarrow> Inr (dates st))"
  by (auto simp add: prepare_dates_def)

text \<open>The three kinds of step, on a state whose two dates are valid.\<close>

lemma step_first_date:
  assumes "valid_zone tz" "is_date D" "parseDate tz D = Time t"
  shows "resolve_item tz dir resolver_init D =
     Inr \<lparr>previousDate = Some (Time t), previousDate_onlyDate = Some (Time t),
          dates = [Time (t + msPerHour - tz * msPerMinute)]\<rparr>"
proof -
  have b: "\<bar>t\<bar> \<le> 8600000000000000" using parseDate_bounds [OF assms] by simp
  show ?thesis
    using assms is_date_not_relative [OF assms(2)] push_date_Time [OF assms(1) b]
    by (simp add: resolve_item_def resolver_init_def same_time_simps Let_def)
qed

lemma step_zero:
  assumes "valid_zone tz" "is_relative z" "parseInt z = 0" "previousDate st = Some (Time p)"
    "\<bar>p\<bar> \<le> 8500000000000000"
  shows "resolve_item tz dir st z =
     Inr (st\<lparr>previousDate := Some (Time (p + msPerMinute)),
             dates := dates st @ [Time (p + msPerMinute + msPerHour - tz * msPerMinute)]\<rparr>)"
proof -
  have a: "addMinutes (Time p) (Some 1) = Time (p + msPerMinute)"
    using assms(5) by (simp add: addMinutes_Time)
  have b: "\<bar>p + msPerMinute\<bar> \<le> 8600000000000000" using assms(5) by (simp add: msPerMinute_def)
  show ?thesis
    using assms push_date_Time [OF assms(1) b]
    by (simp add: resolve_item_def Let_def a)
qed

lemma step_date:
  assumes "valid_zone tz" "is_date D" "parseDate tz D = Time t"
    "previousDate st = Some (Time p)" "previousDate_onlyDate st = Some (Time od)"
    "\<bar>p\<bar> \<le> 8500000000000000"
  shows "resolve_item tz dir st D =
     (if t = p then
        Inr (st\<lparr>previousDate := Some (Time (t + msPerMinute)),
                dates := dates st @ [Time (t + msPerMinute + msPerHour - tz * msPerMinute)]\<rparr>)
      else if t = od then
        Inr (st\<lparr>previousDate := Some (Time (p + msPerMinute)),
                dates := dates st @ [Time (p + msPerMinute + msPerHour - tz * msPerMinute)]\<rparr>)
      else
        Inr (st\<lparr>previousDate := Some (Time t), previousDate_onlyDate := Some (Time t),
                dates := dates st @ [Time (t + msPerHour - tz * msPerMinute)]\<rparr>))"
proof -
  have bt: "\<bar>t\<bar> \<le> 260000000000000" using parseDate_bounds [OF assms(1-3)] .
  then have b1: "\<bar>t\<bar> \<le> 8600000000000000" by simp
  have b2: "\<bar>t + msPerMinute\<bar> \<le> 8600000000000000" using bt by (simp add: msPerMinute_def)
  have b3: "\<bar>p + msPerMinute\<bar> \<le> 8600000000000000" using assms(6) by (simp add: msPerMinute_def)
  have a1: "addMinutes (Time t) (Some 1) = Time (t + msPerMinute)"
    using b1 by (simp add: addMinutes_Time)
  have a2: "addMinutes (Time p) (Some 1) = Time (p + msPerMinute)"
    using assms(6) by (simp add: addMinutes_Time)
  show ?thesis
    using assms(2-5) is_date_not_relative [OF assms(2)]
      push_date_Time [OF assms(1) b1] push_date_Time [OF assms(1) b2] push_date_Time [OF assms(1) b3]
    by (simp add: resolve_item_def same_time_simps Let_def a1 a2)
qed

lemma step_offset:
  assumes "valid_zone tz" "is_relative n" "parseInt n * dir \<noteq> 0"
    "previousDate st = Some pd" "previousDate_onlyDate st = Some (Time od)"
    "\<bar>od + parseInt n * dir * msPerDay\<bar> \<le> 8600000000000000"
  shows "resolve_item tz dir st n =
     Inr (st\<lparr>previousDate := Some (Time (od + parseInt n * dir * msPerDay)),
             previousDate_onlyDate := Some (Time (od + parseInt n * dir * msPerDay)),
             dates := dates st @ [Time (od + parseInt n * dir * msPerDay + msPerHour - tz * msPerMinute)]\<rparr>)"
proof -
  have a: "addDays tz (Time od) (parseInt n * dir) = Time (od + parseInt n * dir * msPerDay)"
    using assms(3,6) by (simp add: addDays_Time new_Date_def maxTime_def)
  show ?thesis
    using assms(2-5) push_date_Time [OF assms(1) assms(6)]
    by (simp add: resolve_item_def Let_def a)
qed



lemma example_date_facts:
  "is_date ''1990-01-01''" "is_relative ''0''" "parseInt ''0'' = 0"
  "parseDate 0 ''1990-01-01'' = Time 631152000000" "valid_zone 0"
  "is_relative ''5''" "parseInt ''5'' = 5"
  by code_simp+




text \<open>
  C10. The check for a repeated date looks at the previous item only: for a valid date
  \<open>D\<close> and a relative item of a nonzero number of days (up to 90 million, so that the
  date stays in range), \<open>[D, n, D]\<close> resolves to a list whose first and third instants
  are the same, the normalized \<open>D\<close>, with a different instant between them.
\<close>

theorem nonadjacent_repeat_collides:
  assumes "valid_zone tz" "drn = ''+'' \<or> drn = ''-''"
    "is_date D" "parseDate tz D = Time t"
    "is_relative n" "0 < parseInt n" "parseInt n \<le> 90000000"
  shows "\<exists>a b. prepare_dates tz drn [D, n, D] = Inr [Time a, Time b, Time a] \<and>
               normalizeDate tz (Time t) = Inr (Time a) \<and> b \<noteq> a"
proof -
  define dir :: int where "dir = (if drn = ''+'' then 1 else - 1)"
  define a where "a = t + msPerHour - tz * msPerMinute"
  define k where "k = parseInt n * dir * msPerDay"
  define st1 where "st1 = \<lparr>previousDate = Some (Time t), previousDate_onlyDate = Some (Time t),
          dates = [Time a]\<rparr>"
  have bt: "\<bar>t\<bar> \<le> 260000000000000" using parseDate_bounds [OF assms(1,3,4)] .
  have dir: "dir = 1 \<or> dir = - 1" by (simp add: dir_def)
  have nz: "parseInt n * dir \<noteq> 0" using assms(6) dir by auto
  have k0: "k \<noteq> 0" using nz by (simp add: k_def msPerDay_def)
  have "k = parseInt n * msPerDay \<or> k = - (parseInt n * msPerDay)"
    using dir by (auto simp add: k_def)
  then have kb: "\<bar>k\<bar> \<le> 90000000 * msPerDay"
    using assms(6,7) by (auto simp add: msPerDay_def)
  have s1: "resolve_item tz dir resolver_init D = Inr st1"
    using step_first_date [OF assms(1,3,4)] by (simp add: st1_def a_def)
  have p1: "previousDate st1 = Some (Time t)" "previousDate_onlyDate st1 = Some (Time t)"
    by (simp_all add: st1_def)
  have b1: "\<bar>t + parseInt n * dir * msPerDay\<bar> \<le> 8600000000000000"
    using bt kb by (simp add: k_def msPerDay_def)
  define st2 where "st2 = st1\<lparr>previousDate := Some (Time (t + k)),
             previousDate_onlyDate := Some (Time (t + k)),
             dates := dates st1 @ [Time (t + k + msPerHour - tz * msPerMinute)]\<rparr>"
  have s2: "resolve_item tz dir st1 n = Inr st2"
    using step_offset [OF assms(1,5) nz p1 b1] by (simp add: st2_def k_def)
  have p2: "previousDate st2 = Some (Time (t + k))" "previousDate_onlyDate st2 = Some (Time (t + k))"
    by (simp_all add: st2_def)
  have b2: "\<bar>t + k\<bar> \<le> 8500000000000000" using bt kb by (simp add: msPerDay_def)
  have s3: "resolve_item tz dir st2 D =
      Inr (st2\<lparr>previousDate := Some (Time t), previousDate_onlyDate := Some (Time t),
                dates := dates st2 @ [Time a]\<rparr>)"
    using step_date [OF assms(1,3,4) p2 b2, of dir] k0 by (simp add: a_def)
  have r: "prepare_dates tz drn [D, n, D] =
      Inr [Time a, Time (t + k + msPerHour - tz * msPerMinute), Time a]"
    using assms(2) s1 s2 s3 by (simp add: direction_dir dir_def [symmetric] st1_def st2_def)
  have nn: "normalizeDate tz (Time t) = Inr (Time a)"
    using normalizeDate_Time [OF assms(1), of t] bt by (simp add: a_def)
  have "t + k + msPerHour - tz * msPerMinute \<noteq> a" using k0 by (simp add: a_def)
  with r nn show ?thesis by blast
qed

theorem nonadjacent_repeat_collides_witness:
  "\<exists>b. prepare_dates 0 ''+'' [''1990-01-01'', ''5'', ''1990-01-01''] =
     Inr [Time 631155600000, Time b, Time 631155600000]"
proof -
  have "(0::int) < parseInt ''5''" "parseInt ''5'' \<le> 90000000"
    using example_date_facts by simp_all
  then obtain a b where a: "prepare_dates 0 ''+'' [''1990-01-01'', ''5'', ''1990-01-01''] = Inr [Time a, Time b, Time a]"
    "normalizeDate 0 (Time 631152000000) = Inr (Time a)"
    using nonadjacent_repeat_collides [of 0 "''+''" "''1990-01-01''" 631152000000 "''5''"]
      example_date_facts by blast
  have "normalizeDate 0 (Time 631152000000) = Inr (Time 631155600000)" by code_simp
  with a(2) have "a = 631155600000" by simp
  with a(1) show ?thesis by blast
qed

text \<open>
  C4. A list of items that starts with a relative item, zero included, fails in either
  direction with the error "Relative date adjustment is used before any date has been
  provided"; no date is assumed.
\<close>

theorem relative_first_fails:
  assumes "is_relative z" "drn = ''+'' \<or> drn = ''-''"
  shows "prepare_dates tz drn (z # rest) = Inl RelativeBeforeDate"
  using assms by (auto simp add: prepare_dates_def resolve_item_def resolver_init_def Let_def)

theorem relative_first_fails_witness:
  "prepare_dates 0 ''-'' [''0'', ''1990-01-01''] = Inl RelativeBeforeDate"
  using relative_first_fails [of "''0''" "''-''" 0 "[''1990-01-01'']"] example_date_facts
  by simp

lemma push_date_cases:
  "push_date tz d st = Inl RangeError_InvalidTime \<or>
   (\<exists>n. push_date tz d st = Inr (st\<lparr>previousDate := Some d, dates := dates st @ [n]\<rparr>))"
  by (auto simp add: push_date_def normalizeDate_def toISOString_def Let_def split: Date.splits sum.splits)

text \<open>After the first item both variables of the closure hold a date.\<close>

definition both_set :: "resolver \<Rightarrow> bool" where
  "both_set st = (previousDate st \<noteq> None \<and> previousDate_onlyDate st \<noteq> None)"

lemma push_date_both_set:
  assumes "previousDate_onlyDate st \<noteq> None"
  shows "push_date tz d st = Inl RangeError_InvalidTime \<or>
     (\<exists>st'. push_date tz d st = Inr st' \<and> both_set st' \<and> length (dates st') = Suc (length (dates st)))"
  using push_date_cases [of tz d st] assms by (auto simp add: both_set_def)

lemma resolve_item_cases:
  assumes "well_formed item" "both_set st \<or> (st = resolver_init \<and> is_date item)"
  shows "resolve_item tz dir st item = Inl RangeError_InvalidTime \<or>
     (\<exists>st'. resolve_item tz dir st item = Inr st' \<and> both_set st' \<and>
            length (dates st') = Suc (length (dates st)))"
proof (cases "is_relative item")
  case True
  then have "\<not> is_date item" using is_date_not_relative by blast
  with assms(2) have bs: "both_set st" by blast
  then obtain pd od where p: "previousDate st = Some pd" "previousDate_onlyDate st = Some od"
    by (auto simp add: both_set_def)
  show ?thesis
  proof (cases "parseInt item * dir = 0")
    case z: True
    have "resolve_item tz dir st item = push_date tz (addMinutes pd (Some 1)) st"
      using True z p by (simp add: resolve_item_def)
    then show ?thesis using push_date_both_set [of st tz "addMinutes pd (Some 1)"] p by simp
  next
    case nz: False
    define d where "d = addDays tz od (parseInt item * dir)"
    have "resolve_item tz dir st item = push_date tz d (st\<lparr>previousDate_onlyDate := Some d\<rparr>)"
      using True nz p by (simp add: resolve_item_def d_def Let_def)
    then show ?thesis
      using push_date_both_set [of "st\<lparr>previousDate_onlyDate := Some d\<rparr>" tz d] by simp
  qed
next
  case False
  with assms(1) have d: "is_date item" by (simp add: well_formed_def)
  define t where "t = parseDate tz item"
  consider (a) "same_time t (previousDate st)"
    | (b) "\<not> same_time t (previousDate st)" "same_time t (previousDate_onlyDate st)"
    | (c) "\<not> same_time t (previousDate st)" "\<not> same_time t (previousDate_onlyDate st)"
    by blast
  then show ?thesis
  proof cases
    case a
    then have bs: "both_set st" using assms(2) by (auto simp add: resolver_init_def same_time_simps)
    have "resolve_item tz dir st item = push_date tz (addMinutes t (Some 1)) st"
      using False d a by (simp add: resolve_item_def t_def)
    then show ?thesis using push_date_both_set [of st tz "addMinutes t (Some 1)"] bs
      by (simp add: both_set_def)
  next
    case b
    then have bs: "both_set st" using assms(2) by (auto simp add: resolver_init_def same_time_simps)
    then obtain pd where p: "previousDate st = Some pd" by (auto simp add: both_set_def)
    have "resolve_item tz dir st item = push_date tz (addMinutes pd (Some 1)) st"
      using False d b p by (simp add: resolve_item_def t_def)
    then show ?thesis using push_date_both_set [of st tz "addMinutes pd (Some 1)"] bs
      by (simp add: both_set_def)
  next
    case c
    have "resolve_item tz dir st item = push_date tz t (st\<lparr>previousDate_onlyDate := Some t\<rparr>)"
      using False d c by (simp add: resolve_item_def t_def Let_def)
    then show ?thesis
      using push_date_both_set [of "st\<lparr>previousDate_onlyDate := Some t\<rparr>" tz t] by simp
  qed
qed

lemma resolve_items_cases:
  assumes "\<forall>x\<in>set items. well_formed x" "both_set st"
  shows "resolve_items tz dir st items = Inl RangeError_InvalidTime \<or>
     (\<exists>st'. resolve_items tz dir st items = Inr st' \<and>
            length (dates st') = length (dates st) + length items)"
  using assms
proof (induction items arbitrary: st)
  case Nil
  then show ?case by simp
next
  case (Cons x xs)
  then have wf: "well_formed x" and rest: "\<forall>y\<in>set xs. well_formed y" by simp_all
  from resolve_item_cases [OF wf, of st tz dir] Cons.prems(2)
  consider "resolve_item tz dir st x = Inl RangeError_InvalidTime"
    | st' where "resolve_item tz dir st x = Inr st'" "both_set st'"
        "length (dates st') = Suc (length (dates st))"
    by blast
  then show ?case
  proof cases
    case 1
    then show ?thesis by simp
  next
    case 2
    from Cons.IH [OF rest 2(2)] 2(1,3) show ?thesis by auto
  qed
qed

lemma prepare_dates_cases:
  assumes "drn = ''+'' \<or> drn = ''-''" "is_date D" "\<forall>x\<in>set rest. well_formed x"
  shows "prepare_dates tz drn (D # rest) = Inl RangeError_InvalidTime \<or>
     (\<exists>ds. prepare_dates tz drn (D # rest) = Inr ds \<and> length ds = length (D # rest))"
proof -
  define dir :: int where "dir = (if drn = ''+'' then 1 else - 1)"
  have wf: "well_formed D" using assms(2) by (simp add: well_formed_def)
  from resolve_item_cases [OF wf, of resolver_init tz dir] assms(2)
  consider "resolve_item tz dir resolver_init D = Inl RangeError_InvalidTime"
    | st' where "resolve_item tz dir resolver_init D = Inr st'" "both_set st'"
        "length (dates st') = Suc (length (dates resolver_init))"
    by blast
  then show ?thesis
  proof cases
    case 1
    then show ?thesis using assms(1) by (simp add: direction_dir dir_def [symmetric])
  next
    case 2
    from resolve_items_cases [OF assms(3) 2(2), of tz dir] 2(1,3) assms(1)
    show ?thesis by (auto simp add: direction_dir dir_def [symmetric] resolver_init_def)
  qed
qed

text \<open>
  A bound on the two dates of the state, and the amount by which an item can raise it: a
  relative item moves a date by its number of days, every item by at most a minute.
\<close>

definition within :: "int \<Rightarrow> resolver \<Rightarrow> bool" where
  "within B st = (\<exists>p od. previousDate st = Some (Time p) \<and> previousDate_onlyDate st = Some (Time od) \<and>
      \<bar>p\<bar> \<le> B \<and> \<bar>od\<bar> \<le> B)"

definition weight :: "string \<Rightarrow> int" where
  "weight item = (if is_relative item then parseInt item * msPerDay else 0) + msPerMinute"

lemma weight_pos: "well_formed item \<Longrightarrow> msPerMinute \<le> weight item"
proof -
  assume "well_formed item"
  have "is_relative item \<Longrightarrow> 0 \<le> parseInt item"
    using parseInt_bounds [of item] by (simp add: is_relative_def)
  then show ?thesis by (auto simp add: weight_def msPerDay_def)
qed

lemma resolve_item_within:
  assumes "valid_zone tz" "dir = 1 \<or> dir = - 1" "well_formed item"
    "is_date item \<longrightarrow> parseDate tz item \<noteq> Invalid_Date"
    "within B st" "260000000000000 \<le> B" "B + weight item \<le> 8500000000000000"
  shows "\<exists>st'. resolve_item tz dir st item = Inr st' \<and> within (B + weight item) st' \<and>
           length (dates st') = Suc (length (dates st))"
proof -
  from assms(5) obtain p od where st: "previousDate st = Some (Time p)"
    "previousDate_onlyDate st = Some (Time od)" "\<bar>p\<bar> \<le> B" "\<bar>od\<bar> \<le> B"
    by (auto simp add: within_def)
  have wp: "msPerMinute \<le> weight item" using weight_pos [OF assms(3)] .
  have pb: "\<bar>p\<bar> \<le> 8500000000000000" using st(3) assms(7) wp by (simp add: msPerMinute_def)
  show ?thesis
  proof (cases "is_relative item")
    case True
    have n0: "0 \<le> parseInt item" using parseInt_bounds [of item] True by (simp add: is_relative_def)
    have w: "weight item = parseInt item * msPerDay + msPerMinute" using True by (simp add: weight_def)
    show ?thesis
    proof (cases "parseInt item = 0")
      case z: True
      have "resolve_item tz dir st item =
          Inr (st\<lparr>previousDate := Some (Time (p + msPerMinute)),
             dates := dates st @ [Time (p + msPerMinute + msPerHour - tz * msPerMinute)]\<rparr>)"
        using step_zero [OF assms(1) True z st(1) pb] .
      moreover have "within (B + weight item)
          (st\<lparr>previousDate := Some (Time (p + msPerMinute)),
             dates := dates st @ [Time (p + msPerMinute + msPerHour - tz * msPerMinute)]\<rparr>)"
        using st wp by (simp add: within_def msPerMinute_def)
      ultimately show ?thesis by simp
    next
      case nz: False
      define k where "k = parseInt item * dir * msPerDay"
      have nzd: "parseInt item * dir \<noteq> 0" using nz assms(2) by auto
      have "k = parseInt item * msPerDay \<or> k = - (parseInt item * msPerDay)"
        using assms(2) by (auto simp add: k_def)
      then have kb: "\<bar>k\<bar> \<le> parseInt item * msPerDay" using n0 by (auto simp add: msPerDay_def)
      have ob: "\<bar>od + k\<bar> \<le> B + weight item" using kb st(4) w by (simp add: msPerMinute_def)
      then have ob': "\<bar>od + parseInt item * dir * msPerDay\<bar> \<le> 8600000000000000"
        using assms(7) by (simp add: k_def)
      have "resolve_item tz dir st item =
          Inr (st\<lparr>previousDate := Some (Time (od + k)), previousDate_onlyDate := Some (Time (od + k)),
             dates := dates st @ [Time (od + k + msPerHour - tz * msPerMinute)]\<rparr>)"
        using step_offset [OF assms(1) True nzd st(1,2) ob'] by (simp add: k_def)
      moreover have "within (B + weight item)
          (st\<lparr>previousDate := Some (Time (od + k)), previousDate_onlyDate := Some (Time (od + k)),
             dates := dates st @ [Time (od + k + msPerHour - tz * msPerMinute)]\<rparr>)"
        using ob by (simp add: within_def)
      ultimately show ?thesis by simp
    qed
  next
    case False
    with assms(3) have d: "is_date item" by (simp add: well_formed_def)
    with assms(4) obtain t where t: "parseDate tz item = Time t" by (cases "parseDate tz item") auto
    have bt: "\<bar>t\<bar> \<le> 260000000000000" using parseDate_bounds [OF assms(1) d t] .
    note sd = step_date [OF assms(1) d t st(1,2) pb, of dir]
    have w1: "\<bar>t + msPerMinute\<bar> \<le> B + weight item" using bt assms(6) wp by (simp add: msPerMinute_def)
    have w2: "\<bar>p + msPerMinute\<bar> \<le> B + weight item" using st(3) wp by (simp add: msPerMinute_def)
    have w3: "\<bar>t\<bar> \<le> B + weight item" using bt assms(6) wp by (simp add: msPerMinute_def)
    have w4: "\<bar>od\<bar> \<le> B + weight item" using st(4) wp by (simp add: msPerMinute_def)
    show ?thesis
      using sd st(1,2) w1 w2 w3 w4 by (auto simp add: within_def)
  qed
qed

lemma resolve_items_within:
  assumes "valid_zone tz" "dir = 1 \<or> dir = - 1" "\<forall>x\<in>set items. well_formed x"
    "\<forall>x\<in>set items. is_date x \<longrightarrow> parseDate tz x \<noteq> Invalid_Date"
    "within B st" "260000000000000 \<le> B" "B + sum_list (map weight items) \<le> 8500000000000000"
  shows "\<exists>st'. resolve_items tz dir st items = Inr st' \<and>
           length (dates st') = length (dates st) + length items"
  using assms(3-7)
proof (induction items arbitrary: st B)
  case Nil
  then show ?case by simp
next
  case (Cons x xs)
  have wf: "well_formed x" and okx: "is_date x \<longrightarrow> parseDate tz x \<noteq> Invalid_Date"
    using Cons.prems by simp_all
  have rest0: "0 \<le> sum_list (map weight xs)"
  proof (rule sum_list_nonneg)
    fix w assume "w \<in> set (map weight xs)"
    then obtain y where "y \<in> set xs" "w = weight y" by auto
    then show "0 \<le> w" using weight_pos [of y] Cons.prems(1) by (simp add: msPerMinute_def)
  qed
  have bx: "B + weight x \<le> 8500000000000000" using Cons.prems(5) rest0 by simp
  from resolve_item_within [OF assms(1,2) wf okx Cons.prems(3,4) bx]
  obtain st' where s: "resolve_item tz dir st x = Inr st'" "within (B + weight x) st'"
    "length (dates st') = Suc (length (dates st))" by blast
  have b': "260000000000000 \<le> B + weight x"
    using Cons.prems(4) weight_pos [OF wf] by (simp add: msPerMinute_def)
  have "\<exists>st''. resolve_items tz dir st' xs = Inr st'' \<and>
           length (dates st'') = length (dates st') + length xs"
    using Cons.IH [of "B + weight x" st'] Cons.prems(1,2,5) s(2) b' by (simp add: add.assoc)
  then show ?case using s(1,3) by auto
qed

lemma sum_weight: "sum_list (map weight items) = offsets_sum items * msPerDay + int (length items) * msPerMinute"
  by (induction items) (simp_all add: weight_def offsets_sum_def algebra_simps)

lemma offsets_sum_nonneg: "0 \<le> offsets_sum items"
  unfolding offsets_sum_def
proof (rule sum_list_nonneg)
  fix w assume "w \<in> set (map parseInt (filter is_relative items))"
  then obtain y where "is_relative y" "w = parseInt y" by auto
  then show "0 \<le> w" using parseInt_bounds [of y] by (simp add: is_relative_def)
qed

text \<open>
  C3 (amended). For well-formed items the first of which is a date, the resolution ends
  either with one instant per item or with the host's \<open>RangeError\<close> for an invalid time
  value, and with no other error. It ends with one instant per item when every date item
  parses to a valid date and the day counts of the relative items plus the number of items
  are at most 90 million.
\<close>

theorem resolve_same_length:
  assumes "valid_zone tz" "drn = ''+'' \<or> drn = ''-''"
    "is_date D" "\<forall>x\<in>set rest. well_formed x"
  shows "(prepare_dates tz drn (D # rest) = Inl RangeError_InvalidTime \<or>
          (\<exists>ds. prepare_dates tz drn (D # rest) = Inr ds \<and> length ds = length (D # rest))) \<and>
         ((\<forall>x\<in>set (D # rest). is_date x \<longrightarrow> parseDate tz x \<noteq> Invalid_Date) \<and>
          offsets_sum rest + int (length (D # rest)) \<le> 90000000 \<longrightarrow>
          (\<exists>ds. prepare_dates tz drn (D # rest) = Inr ds \<and> length ds = length (D # rest)))"
proof (intro conjI impI)
  show "prepare_dates tz drn (D # rest) = Inl RangeError_InvalidTime \<or>
          (\<exists>ds. prepare_dates tz drn (D # rest) = Inr ds \<and> length ds = length (D # rest))"
    using prepare_dates_cases [OF assms(2,3,4)] .
next
  assume h: "(\<forall>x\<in>set (D # rest). is_date x \<longrightarrow> parseDate tz x \<noteq> Invalid_Date) \<and>
          offsets_sum rest + int (length (D # rest)) \<le> 90000000"
  define dir :: int where "dir = (if drn = ''+'' then 1 else - 1)"
  have dir: "dir = 1 \<or> dir = - 1" by (simp add: dir_def)
  from h assms(3) obtain t where t: "parseDate tz D = Time t" by (cases "parseDate tz D") auto
  have bt: "\<bar>t\<bar> \<le> 260000000000000" using parseDate_bounds [OF assms(1,3) t] .
  define st1 where "st1 = \<lparr>previousDate = Some (Time t), previousDate_onlyDate = Some (Time t),
          dates = [Time (t + msPerHour - tz * msPerMinute)]\<rparr>"
  have s1: "resolve_item tz dir resolver_init D = Inr st1"
    using step_first_date [OF assms(1,3) t] by (simp add: st1_def)
  have w1: "within 260000000000000 st1" using bt by (simp add: within_def st1_def)
  have ok: "\<forall>x\<in>set rest. is_date x \<longrightarrow> parseDate tz x \<noteq> Invalid_Date" using h by simp
  have "offsets_sum rest + int (length rest) \<le> 89999999" using h by simp
  then have "(offsets_sum rest + int (length rest)) * msPerDay \<le> 89999999 * msPerDay"
    by (simp add: msPerDay_def)
  moreover have "int (length rest) * msPerMinute \<le> int (length rest) * msPerDay"
    by (simp add: msPerDay_def msPerMinute_def)
  ultimately have "sum_list (map weight rest) \<le> 89999999 * msPerDay"
    by (simp add: sum_weight algebra_simps)
  then have b: "260000000000000 + sum_list (map weight rest) \<le> 8500000000000000"
    by (simp add: msPerDay_def)
  from resolve_items_within [OF assms(1) dir assms(4) ok w1 _ b]
  obtain st' where s: "resolve_items tz dir st1 rest = Inr st'"
    "length (dates st') = length (dates st1) + length rest" by auto
  have "prepare_dates tz drn (D # rest) = Inr (dates st')"
    using assms(2) s1 s(1) by (simp add: direction_dir dir_def [symmetric])
  moreover have "length (dates st') = length (D # rest)" using s(2) by (simp add: st1_def)
  ultimately show "\<exists>ds. prepare_dates tz drn (D # rest) = Inr ds \<and> length ds = length (D # rest)"
    by blast
qed

lemma example_tokens_facts:
  "well_formed ''5''" "well_formed ''0''" "well_formed ''1990-01-01''"
  "parseDate 0 ''1990-01-01'' \<noteq> Invalid_Date"
  "offsets_sum [''5'', ''0'', ''1990-01-01''] = 5"
  by code_simp+

theorem resolve_same_length_witness:
  "\<exists>ds. prepare_dates 0 ''+'' [''1990-01-01'', ''5'', ''0'', ''1990-01-01''] = Inr ds \<and> length ds = 4"
proof -
  have a: "\<forall>x\<in>set [''5'', ''0'', ''1990-01-01'']. well_formed x"
    using example_tokens_facts by simp
  have b: "(\<forall>x\<in>set [''1990-01-01'', ''5'', ''0'', ''1990-01-01'']. is_date x \<longrightarrow> parseDate 0 x \<noteq> Invalid_Date) \<and>
      offsets_sum [''5'', ''0'', ''1990-01-01''] + int (length [''1990-01-01'', ''5'', ''0'', ''1990-01-01'']) \<le> 90000000"
    using example_tokens_facts example_date_facts is_date_not_relative [of "''5''"]
      is_date_not_relative [of "''0''"] by auto
  have c: "valid_zone 0" "''+'' = ''+'' \<or> ''+'' = ''-''" "is_date ''1990-01-01''"
    using example_date_facts by simp_all
  from resolve_same_length [OF c a] b
  have "\<exists>ds. prepare_dates 0 ''+'' (''1990-01-01'' # [''5'', ''0'', ''1990-01-01'']) = Inr ds \<and>
      length ds = length (''1990-01-01'' # [''5'', ''0'', ''1990-01-01''])"
    by blast
  then show ?thesis by (simp add: eval_nat_numeral)
qed

text \<open>
  C3 as stated fails: a valid date followed by a day count that leaves the range of
  dates makes \<open>normalizeDate\<close> throw.
\<close>

theorem resolve_overflow_counterexample:
  "is_date ''1990-12-23'' \<and> is_relative ''100000000'' \<and>
   prepare_dates 0 ''+'' [''1990-12-23'', ''100000000''] = Inl RangeError_InvalidTime"
  by code_simp

lemma parseDate_fields:
  assumes "valid_zone tz"
    "parseInt (take 4 s) = y" "parseInt (take 2 (drop 5 s)) = m" "parseInt (drop 8 s) = d"
    "1 \<le> y \<and> 1 \<le> m \<and> m \<le> 12 \<and> 1 \<le> d \<and> d \<le> DaysInMonth y m"
    "MakeDay y (m - 1) d = k" "\<bar>k\<bar> \<le> 99000000"
  shows "parseDate tz s = Time (k * msPerDay + tz * msPerMinute)"
proof -
  have "- 1440 * msPerMinute < tz * msPerMinute" "tz * msPerMinute < 1440 * msPerMinute"
    using assms(1) by (simp_all add: valid_zone_def msPerMinute_def)
  moreover have "\<bar>k * msPerDay\<bar> \<le> 99000000 * msPerDay"
    using assms(7) by (simp add: abs_mult msPerDay_def)
  ultimately have "\<bar>k * msPerDay + tz * msPerMinute\<bar> \<le> maxTime"
    by (simp add: maxTime_def msPerDay_def msPerMinute_def)
  then show ?thesis
    using assms(2-6)
    by (simp add: parseDate_def parse_yyyy_MM_dd_def Let_def new_Date_def UTC_def MakeDate_def)
qed

lemma fields_1990_12:
  "parseInt (take 4 ''1990-12-23'') = 1990" "parseInt (take 2 (drop 5 ''1990-12-23'')) = 12"
  "parseInt (drop 8 ''1990-12-23'') = 23"
  "parseInt (take 4 ''1990-12-26'') = 1990" "parseInt (take 2 (drop 5 ''1990-12-26'')) = 12"
  "parseInt (drop 8 ''1990-12-26'') = 26"
  "parseInt (take 4 ''1990-12-20'') = 1990" "parseInt (take 2 (drop 5 ''1990-12-20'')) = 12"
  "parseInt (drop 8 ''1990-12-20'') = 20"
  "DaysInMonth 1990 12 = 31"
  "MakeDay 1990 (12 - 1) 23 = 7661" "MakeDay 1990 (12 - 1) 26 = 7664" "MakeDay 1990 (12 - 1) 20 = 7658"
  "is_date ''1990-12-23''" "is_relative ''3''" "parseInt ''3'' = 3"
  by code_simp+

lemma parseDate_1990_12:
  assumes "valid_zone tz"
  shows "parseDate tz ''1990-12-23'' = Time (661910400000 + tz * msPerMinute)"
    "parseDate tz ''1990-12-26'' = Time (662169600000 + tz * msPerMinute)"
    "parseDate tz ''1990-12-20'' = Time (661651200000 + tz * msPerMinute)"
proof -
  show "parseDate tz ''1990-12-23'' = Time (661910400000 + tz * msPerMinute)"
    using parseDate_fields [OF assms fields_1990_12(1,2,3) _ fields_1990_12(11)]
    by (simp add: fields_1990_12(10) msPerDay_def)
  show "parseDate tz ''1990-12-26'' = Time (662169600000 + tz * msPerMinute)"
    using parseDate_fields [OF assms fields_1990_12(4,5,6) _ fields_1990_12(12)]
    by (simp add: fields_1990_12(10) msPerDay_def)
  show "parseDate tz ''1990-12-20'' = Time (661651200000 + tz * msPerMinute)"
    using parseDate_fields [OF assms fields_1990_12(7,8,9) _ fields_1990_12(13)]
    by (simp add: fields_1990_12(10) msPerDay_def)
qed

text \<open>
  C6. In every zone, the items \<open>1990-12-23\<close> and \<open>3\<close> resolve with direction \<open>+\<close> to the
  normalized instants of 1990-12-23 and 1990-12-26, and with direction \<open>-\<close> to those of
  1990-12-23 and 1990-12-20.
\<close>

theorem scenario_1990_12_23:
  assumes "valid_zone tz"
  shows "prepare_dates tz ''+'' [''1990-12-23'', ''3''] = Inr [Time 661914000000, Time 662173200000] \<and>
         prepare_dates tz ''-'' [''1990-12-23'', ''3''] = Inr [Time 661914000000, Time 661654800000] \<and>
         normalizeDate tz (parseDate tz ''1990-12-23'') = Inr (Time 661914000000) \<and>
         normalizeDate tz (parseDate tz ''1990-12-26'') = Inr (Time 662173200000) \<and>
         normalizeDate tz (parseDate tz ''1990-12-20'') = Inr (Time 661654800000)"
proof -
  define t where "t = 661910400000 + tz * msPerMinute"
  have z: "- 1440 * msPerMinute < tz * msPerMinute" "tz * msPerMinute < 1440 * msPerMinute"
    using assms by (simp_all add: valid_zone_def msPerMinute_def)
  have p: "parseDate tz ''1990-12-23'' = Time t"
    using parseDate_1990_12(1) [OF assms] by (simp add: t_def)
  have n1: "normalizeDate tz (parseDate tz ''1990-12-23'') = Inr (Time 661914000000)"
    using normalizeDate_Time [OF assms, of "661910400000 + tz * msPerMinute"] z
    by (simp add: parseDate_1990_12(1) [OF assms] msPerHour_def msPerMinute_def)
  have n2: "normalizeDate tz (parseDate tz ''1990-12-26'') = Inr (Time 662173200000)"
    using normalizeDate_Time [OF assms, of "662169600000 + tz * msPerMinute"] z
    by (simp add: parseDate_1990_12(2) [OF assms] msPerHour_def msPerMinute_def)
  have n3: "normalizeDate tz (parseDate tz ''1990-12-20'') = Inr (Time 661654800000)"
    using normalizeDate_Time [OF assms, of "661651200000 + tz * msPerMinute"] z
    by (simp add: parseDate_1990_12(3) [OF assms] msPerHour_def msPerMinute_def)
  define st1 where "st1 = \<lparr>previousDate = Some (Time t), previousDate_onlyDate = Some (Time t),
          dates = [Time (t + msPerHour - tz * msPerMinute)]\<rparr>"
  have s1: "resolve_item tz dir resolver_init ''1990-12-23'' = Inr st1" for dir
    using step_first_date [OF assms fields_1990_12(14) p] by (simp add: st1_def)
  have p1: "previousDate st1 = Some (Time t)" "previousDate_onlyDate st1 = Some (Time t)"
    by (simp_all add: st1_def)
  have fwd: "resolve_item tz 1 st1 ''3'' =
      Inr (st1\<lparr>previousDate := Some (Time (t + 3 * msPerDay)),
             previousDate_onlyDate := Some (Time (t + 3 * msPerDay)),
             dates := dates st1 @ [Time (t + 3 * msPerDay + msPerHour - tz * msPerMinute)]\<rparr>)"
    using step_offset [OF assms fields_1990_12(15) _ p1, of 1] z
    by (simp add: fields_1990_12(16) t_def msPerDay_def msPerMinute_def)
  have bwd: "resolve_item tz (- 1) st1 ''3'' =
      Inr (st1\<lparr>previousDate := Some (Time (t - 3 * msPerDay)),
             previousDate_onlyDate := Some (Time (t - 3 * msPerDay)),
             dates := dates st1 @ [Time (t - 3 * msPerDay + msPerHour - tz * msPerMinute)]\<rparr>)"
    using step_offset [OF assms fields_1990_12(15) _ p1, of "- 1"] z
    by (simp add: fields_1990_12(16) t_def msPerDay_def msPerMinute_def)
  have r1: "prepare_dates tz ''+'' [''1990-12-23'', ''3''] = Inr [Time 661914000000, Time 662173200000]"
    using s1 [of 1] fwd
    by (simp add: prepare_dates_def st1_def t_def msPerDay_def msPerHour_def)
  have r2: "prepare_dates tz ''-'' [''1990-12-23'', ''3''] = Inr [Time 661914000000, Time 661654800000]"
    using s1 [of "- 1"] bwd
    by (simp add: prepare_dates_def st1_def t_def msPerDay_def msPerHour_def)
  from r1 r2 n1 n2 n3 show ?thesis by blast
qed

theorem scenario_1990_12_23_witness:
  "prepare_dates (- 120) ''+'' [''1990-12-23'', ''3''] = Inr [Time 661914000000, Time 662173200000] \<and>
   prepare_dates (- 120) ''-'' [''1990-12-23'', ''3''] = Inr [Time 661914000000, Time 661654800000]"
proof -
  have "valid_zone (- 120)" by (simp add: valid_zone_def)
  from scenario_1990_12_23 [OF this] show ?thesis by blast
qed

section \<open>The range of years and the clock\<close>

lemma LocalTime_UTC: "LocalTime tz (UTC tz x) = x"
  by (simp add: LocalTime_def UTC_def)

lemma TimeWithinDay_range: "0 \<le> TimeWithinDay l \<and> TimeWithinDay l < msPerDay"
  by (simp add: TimeWithinDay_def msPerDay_def)

lemma Day_MakeDate: "Day (MakeDate d (TimeWithinDay l)) = d"
proof -
  have "MakeDate d (TimeWithinDay l) = msPerDay * d + TimeWithinDay l"
    by (simp add: MakeDate_def)
  moreover have "0 \<le> TimeWithinDay l" "TimeWithinDay l < msPerDay"
    using TimeWithinDay_range [of l] by simp_all
  ultimately show ?thesis
    unfolding Day_def by (metis int_div_pos_eq)
qed

lemma DayWithinYear_range:
  "0 \<le> DayWithinYear l \<and> DayWithinYear l < 365 + leap_day (YearFromTime l)"
  using YearFromDay_spec [of "Day l"] DayFromYear_Suc [of "YearFromDay (Day l)"]
  by (auto simp add: DayWithinYear_def YearFromTime_def DaysInYear_def leap_day_def split: if_splits)

lemma DayFromMonth_table:
  "DayFromMonth 0 l = 0" "DayFromMonth 1 l = 31" "DayFromMonth 2 l = 59 + l"
  "DayFromMonth 3 l = 90 + l" "DayFromMonth 4 l = 120 + l" "DayFromMonth 5 l = 151 + l"
  "DayFromMonth 6 l = 181 + l" "DayFromMonth 7 l = 212 + l" "DayFromMonth 8 l = 243 + l"
  "DayFromMonth 9 l = 273 + l" "DayFromMonth 10 l = 304 + l" "DayFromMonth 11 l = 334 + l"
  by (simp_all add: DayFromMonth_def)

lemma month_day_in_year:
  assumes "0 \<le> k" "k \<le> 1"
  shows "0 \<le> DayFromMonth (MonthFromTime l) k + DateFromTime l - 1 \<and>
         DayFromMonth (MonthFromTime l) k + DateFromTime l - 1 < 365 + k"
proof -
  define d where "d = DayWithinYear l"
  define j where "j = leap_day (YearFromTime l)"
  have d: "0 \<le> d" "d < 365 + j" using DayWithinYear_range [of l] by (simp_all add: d_def j_def)
  have j: "0 \<le> j" "j \<le> 1" using leap_day_range [of "YearFromTime l"] by (simp_all add: j_def)
  show ?thesis
    unfolding MonthFromTime_def DateFromTime_def Let_def d_def [symmetric] j_def [symmetric]
    using d j assms by (simp add: DayFromMonth_table)
qed


lemma MakeDay_in_month:
  "MakeDay y (MonthFromTime l) d = DayFromYear y + DayFromMonth (MonthFromTime l) (leap_day y) + d - 1"
proof -
  have "MonthFromTime l div 12 = 0" "MonthFromTime l mod 12 = MonthFromTime l"
    using MonthFromTime_range [of l] by simp_all
  then show ?thesis by (simp add: MakeDay_def Let_def)
qed

lemma DayFromYear_74: "DayFromYear y \<le> DayFromYear (y + 74) \<and> DayFromYear (y + 74) < DayFromYear y + 27032"
proof -
  have "400 * DayFromYear (y + 74) \<le> 146097 * y - 276999320"
    using DayFromYear_bounds [of "y + 74"] by simp
  moreover have "146097 * y - 287811982 < 400 * DayFromYear y"
    using DayFromYear_bounds [of y] by simp
  ultimately have "DayFromYear (y + 74) < DayFromYear y + 27032" by linarith
  then show ?thesis using DayFromYear_mono [of y "y + 74"] by simp
qed

lemma futureNow_year:
  assumes "valid_zone tz" "\<bar>n\<bar> \<le> 8600000000000000"
  shows "getFullYear tz (futureNow tz (Time n)) = Some (YearFromTime (LocalTime tz n) + 74)"
proof -
  define l where "l = LocalTime tz n"
  define y where "y = YearFromTime l + 74"
  define off where "off = DayFromMonth (MonthFromTime l) (leap_day y) + DateFromTime l - 1"
  define day' where "day' = MakeDay y (MonthFromTime l) (DateFromTime l)"
  define v where "v = UTC tz (MakeDate day' (TimeWithinDay l))"
  have off: "0 \<le> off" "off < 365 + leap_day y"
    using month_day_in_year [of "leap_day y" l] leap_day_range [of y] by (simp_all add: off_def)
  have day': "day' = DayFromYear y + off"
    by (simp add: day'_def off_def MakeDay_in_month)
  have "DayFromYear (y + 1) = DayFromYear y + 365 + leap_day y"
    using DayFromYear_Suc [of y] by (simp add: DaysInYear_def leap_day_def)
  then have yr: "YearFromDay day' = y"
    using off day' by (intro YearFromDay_unique) simp_all
  have dl: "DayFromYear (YearFromTime l) \<le> Day l" "Day l < DayFromYear (YearFromTime l) + 366"
    using DayWithinYear_range [of l] leap_day_range [of "YearFromTime l"]
    by (simp_all add: DayWithinYear_def)
  have d74: "DayFromYear (YearFromTime l) \<le> DayFromYear y" "DayFromYear y < DayFromYear (YearFromTime l) + 27032"
    using DayFromYear_74 [of "YearFromTime l"] by (simp_all add: y_def)
  have diff: "- 366 \<le> day' - Day l" "day' - Day l \<le> 27398"
    using dl d74 off day' leap_day_range [of y] by simp_all
  have l_split: "l = Day l * msPerDay + TimeWithinDay l"
    by (simp add: Day_def TimeWithinDay_def)
  have "v = day' * msPerDay + TimeWithinDay l + tz * msPerMinute"
    by (simp add: v_def UTC_def MakeDate_def)
  also have "\<dots> = n + (day' - Day l) * msPerDay"
    using l_split by (simp add: l_def LocalTime_def algebra_simps)
  finally have v: "v = n + (day' - Day l) * msPerDay" .
  have "- 366 * msPerDay \<le> (day' - Day l) * msPerDay" "(day' - Day l) * msPerDay \<le> 27398 * msPerDay"
    using diff by (simp_all add: msPerDay_def)
  then have vb: "\<bar>v\<bar> \<le> maxTime"
    using assms(2) unfolding v by (simp add: msPerDay_def maxTime_def)
  have fn: "futureNow tz (Time n) = Time v"
    using vb
    by (simp add: futureNow_def getFullYear_def setFullYear_def new_Date_def Let_def
        l_def [symmetric] y_def [symmetric] day'_def [symmetric] v_def [symmetric])
  have "YearFromTime (LocalTime tz v) = y"
    by (simp add: v_def LocalTime_UTC YearFromTime_def Day_MakeDate yr)
  then show ?thesis by (simp add: fn getFullYear_def y_def l_def)
qed

lemma check_date_Time:
  assumes "valid_zone tz" "\<bar>n\<bar> \<le> 8600000000000000"
    "getFullYear tz (Time n) = Some currentYear" "getFullYear tz d = Some y"
  shows "check_date tz (Time n) d =
     (if y < 1970 then Some BeforeMin
      else if currentYear + 73 < y then Some (AfterMax (Some (currentYear + 73)))
      else None)"
proof -
  have "currentYear = YearFromTime (LocalTime tz n)" using assms(3) by (simp add: getFullYear_def)
  then have "getFullYear tz (futureNow tz (Time n)) = Some (currentYear + 74)"
    using futureNow_year [OF assms(1,2)] by simp
  then show ?thesis using assms(4) by (simp add: check_date_def num_less_def Let_def)
qed

lemma filter_dates_lenient:
  "filter_dates True tz now ds = Inr (filter (\<lambda>d. check_date tz now d = None) ds)"
  by (induction ds) (auto split: option.splits)

lemma filter_dates_strict_fails:
  "\<exists>d\<in>set ds. check_date tz now d \<noteq> None \<Longrightarrow>
   \<exists>d re. d \<in> set ds \<and> check_date tz now d = Some re \<and>
          filter_dates False tz now ds = Inl (DateNotAcceptable d re)"
proof (induction ds)
  case Nil
  then show ?case by simp
next
  case (Cons x xs)
  show ?case
  proof (cases "check_date tz now x")
    case None
    with Cons.prems have "\<exists>d\<in>set xs. check_date tz now d \<noteq> None" by auto
    from Cons.IH [OF this] None show ?thesis by auto
  next
    case (Some re)
    then show ?thesis by auto
  qed
qed


text \<open>
  C5. With the clock in year \<open>currentYear\<close>, the check of \<open>processDates\<close> throws for
  exactly the dates whose year is below 1970 or at least \<open>currentYear + 74\<close>: year 1969
  fails, year \<open>currentYear + 74\<close> fails, year \<open>currentYear + 73\<close> passes (for a clock not
  before 1897). Under \<open>let-it-go\<close> the failing dates are left out and the commits are made
  for the others; otherwise the first failing date ends \<open>processDates\<close> with its error and
  the repository as it was, before any commit.
\<close>

theorem range_validation:
  assumes "valid_zone tz" "\<bar>n\<bar> \<le> 8600000000000000" "getFullYear tz (Time n) = Some currentYear"
  shows "(\<forall>d y. getFullYear tz d = Some y \<longrightarrow>
            (check_date tz (Time n) d \<noteq> None) = (y < 1970 \<or> currentYear + 74 \<le> y)) \<and>
         (\<forall>d. getFullYear tz d = Some 1969 \<longrightarrow> check_date tz (Time n) d = Some BeforeMin) \<and>
         (\<forall>d. getFullYear tz d = Some (currentYear + 74) \<longrightarrow> check_date tz (Time n) d \<noteq> None) \<and>
         (\<forall>d. getFullYear tz d = Some (currentYear + 73) \<longrightarrow> 1897 \<le> currentYear \<longrightarrow>
            check_date tz (Time n) d = None) \<and>
         (\<forall>throws ds w. processDates True tz (Time n) throws ds w =
            (case stringifyDates (filter (\<lambda>d. check_date tz (Time n) d = None) ds) of
               Inl e \<Rightarrow> (Some e, w)
             | Inr strings \<Rightarrow> processDateStrings True throws strings w)) \<and>
         (\<forall>throws ds w. (\<exists>d\<in>set ds. check_date tz (Time n) d \<noteq> None) \<longrightarrow>
            (\<exists>d re. d \<in> set ds \<and> check_date tz (Time n) d = Some re \<and>
               processDates False tz (Time n) throws ds w = (Some (DateNotAcceptable d re), w)))"
proof -
  note cd = check_date_Time [OF assms]
  have a: "\<forall>d y. getFullYear tz d = Some y \<longrightarrow>
            (check_date tz (Time n) d \<noteq> None) = (y < 1970 \<or> currentYear + 74 \<le> y)"
    using cd by auto
  have b: "\<forall>d. getFullYear tz d = Some 1969 \<longrightarrow> check_date tz (Time n) d = Some BeforeMin"
    using cd by simp
  have c: "\<forall>d. getFullYear tz d = Some (currentYear + 74) \<longrightarrow> check_date tz (Time n) d \<noteq> None"
    using cd by simp
  have d: "\<forall>d. getFullYear tz d = Some (currentYear + 73) \<longrightarrow> 1897 \<le> currentYear \<longrightarrow>
            check_date tz (Time n) d = None"
    using cd by simp
  have e: "\<forall>throws ds w. processDates True tz (Time n) throws ds w =
            (case stringifyDates (filter (\<lambda>d. check_date tz (Time n) d = None) ds) of
               Inl e \<Rightarrow> (Some e, w)
             | Inr strings \<Rightarrow> processDateStrings True throws strings w)"
    by (simp add: processDates_def filter_dates_lenient)
  have f: "\<forall>throws ds w. (\<exists>d\<in>set ds. check_date tz (Time n) d \<noteq> None) \<longrightarrow>
            (\<exists>d re. d \<in> set ds \<and> check_date tz (Time n) d = Some re \<and>
               processDates False tz (Time n) throws ds w = (Some (DateNotAcceptable d re), w))"
  proof (intro allI impI)
    fix throws :: "nat \<Rightarrow> bool" and ds :: "Date list" and w :: world
    assume "\<exists>d\<in>set ds. check_date tz (Time n) d \<noteq> None"
    from filter_dates_strict_fails [OF this]
    show "\<exists>d re. d \<in> set ds \<and> check_date tz (Time n) d = Some re \<and>
               processDates False tz (Time n) throws ds w = (Some (DateNotAcceptable d re), w)"
      by (auto simp add: processDates_def)
  qed
  from a b c d e f show ?thesis by blast
qed

lemma example_clock_facts:
  "valid_zone 0" "\<bar>1730000000000\<bar> \<le> (8600000000000000::int)"
  "getFullYear 0 (Time 1730000000000) = Some 2024"
  "getFullYear 0 (Time (- 1)) = Some 1969"
  "getFullYear 0 (Time 4039372800000) = Some (2024 + 74)"
  "getFullYear 0 (Time 4039372799999) = Some (2024 + 73)"
  by code_simp+

theorem range_validation_witness:
  "check_date 0 (Time 1730000000000) (Time (- 1)) = Some BeforeMin \<and>
   check_date 0 (Time 1730000000000) (Time 4039372800000) \<noteq> None \<and>
   check_date 0 (Time 1730000000000) (Time 4039372799999) = None"
proof -
  note r = range_validation [OF example_clock_facts(1,2,3)]
  have a: "check_date 0 (Time 1730000000000) (Time (- 1)) = Some BeforeMin"
    using r example_clock_facts(4) by blast
  have b: "check_date 0 (Time 1730000000000) (Time 4039372800000) \<noteq> None"
    using r example_clock_facts(5) by blast
  have "(1897::int) \<le> 2024" by simp
  then have c: "check_date 0 (Time 1730000000000) (Time 4039372799999) = None"
    using r example_clock_facts(6) by blast
  from a b c show ?thesis by blast
qed

section \<open>The commits and the reset\<close>

text \<open>The commands that the checks before the dates run: no commit for a date, no hard reset.\<close>

definition preflight_op :: "git_op \<Rightarrow> bool" where
  "preflight_op op =
     (case op of GitInit \<Rightarrow> True | SoftResetToRoot \<Rightarrow> True | GitCommit (Future m) \<Rightarrow> True
      | GitCommit (Dated d) \<Rightarrow> False | HardReset h \<Rightarrow> False)"

lemma fold_commit_head: "head (fold commit xs w) = rev (map Dated xs) @ head w"
  by (induction xs arbitrary: w) (simp_all add: commit_def)









lemma run_reaches_apply:
  assumes "\<not> help_flag cfg" "preflight cfg w = (None, w0)" "positional cfg \<noteq> []"
    "prepare_dates tz (direction cfg) (positional cfg) = Inr ds" "\<not> no_commit cfg"
  shows "run cfg tz now f w = apply_phase cfg tz now f ds w0"
  using assms by (simp add: run_def)


text \<open>Example inputs: a clean repository with its first commit, a directory that is no
  repository yet, flags at their defaults, and the clock at a day of 2024.\<close>

definition example_world :: world where
  "example_world =
     \<lparr>git_available = True, is_repo = True, clean = True, head = [Future ''INIT''], ops = []\<rparr>"

definition fresh_world :: world where
  "fresh_world = \<lparr>git_available = True, is_repo = False, clean = True, head = [], ops = []\<rparr>"

definition example_config :: "string list \<Rightarrow> config" where
  "example_config its =
     \<lparr>help_flag = False, let_it_go = False, no_commit = False, cleanse = [], reset = [],
      direction = ''+'', positional = its\<rparr>"

definition fail_at :: "nat \<Rightarrow> faults" where
  "fail_at k = \<lparr>commit_throws = (\<lambda>i. i = k), reset_throws = False\<rparr>"

definition no_faults :: faults where
  "no_faults = \<lparr>commit_throws = (\<lambda>i. False), reset_throws = False\<rparr>"

definition example_now :: Date where
  "example_now = Time 1730000000000"

lemma example_run_facts:
  "preflight (example_config its) example_world = (None, example_world)"
  "\<not> help_flag (example_config its)" "\<not> no_commit (example_config its)"
  "\<not> let_it_go (example_config its)" "positional (example_config its) = its"
  "direction (example_config its) = ''+''"
  "\<not> reset_throws (fail_at k)" "commit_throws (fail_at k) i = (i = k)"
  "\<not> reset_throws no_faults"
  "getCurrentCommitHash example_world = [Future ''INIT'']" "ops example_world = []"
  "head example_world = [Future ''INIT'']"
  by (simp_all add: preflight_def example_config_def example_world_def fail_at_def no_faults_def
      getCommitCount_def getCurrentCommitHash_def)



text \<open>
  C8 (amended). An error thrown before the hash is saved (git missing, an unclean
  repository, a bad direction flag, an item that cannot be resolved) ends the run with
  the repository as the checks before the dates left it: these run no commit for a date
  and no hard reset, but they may have initialized the repository or made the commits of
  \<open>cleanse\<close>, of the first commit or of \<open>reset\<close>. A date outside the range of years,
  without \<open>let-it-go\<close>, makes no commit either, but it is thrown inside \<open>processDates\<close>
  and caught with the errors of the commits: the hard reset to the saved hash runs, and
  the head stays where it was.
\<close>

theorem errors_before_apply:
  "(\<forall>e. fst (run cfg tz now f w) = Module_Failed e \<longrightarrow> e \<noteq> HardResetError \<longrightarrow>
      snd (run cfg tz now f w) = snd (preflight cfg w)) \<and>
   (\<exists>pre. ops (snd (preflight cfg w)) = ops w @ pre \<and> list_all preflight_op pre) \<and>
   (\<not> help_flag cfg \<longrightarrow> preflight cfg w = (None, w0) \<longrightarrow> positional cfg \<noteq> [] \<longrightarrow>
    prepare_dates tz (direction cfg) (positional cfg) = Inr ds \<longrightarrow> \<not> no_commit cfg \<longrightarrow>
    \<not> let_it_go cfg \<longrightarrow> (\<exists>d\<in>set ds. check_date tz now d \<noteq> None) \<longrightarrow> \<not> reset_throws f \<longrightarrow>
      (\<exists>d re. fst (run cfg tz now f w) = Rolled_Back (DateNotAcceptable d re)) \<and>
      head (snd (run cfg tz now f w)) = head w0 \<and>
      ops (snd (run cfg tz now f w)) = ops w0 @ [HardReset (head w0)])"
proof (intro conjI allI impI)
  fix e
  assume "fst (run cfg tz now f w) = Module_Failed e" "e \<noteq> HardResetError"
  then show "snd (run cfg tz now f w) = snd (preflight cfg w)"
    by (auto simp add: run_def apply_phase_def Let_def
        split: if_splits prod.splits option.splits sum.splits)
next
  show "\<exists>pre. ops (snd (preflight cfg w)) = ops w @ pre \<and> list_all preflight_op pre"
    by (auto simp add: preflight_def Let_def initializeGitRepository_def cleanRepository_def
        createInitialCommit_def resetRepository_def preflight_op_def)
next
  assume h: "\<not> help_flag cfg" "preflight cfg w = (None, w0)" "positional cfg \<noteq> []"
    "prepare_dates tz (direction cfg) (positional cfg) = Inr ds" "\<not> no_commit cfg"
    "\<not> let_it_go cfg" "\<exists>d\<in>set ds. check_date tz now d \<noteq> None" "\<not> reset_throws f"
  from filter_dates_strict_fails [OF h(7)] obtain d re where
    fd: "filter_dates False tz now ds = Inl (DateNotAcceptable d re)" by blast
  have r: "run cfg tz now f w =
      (Rolled_Back (DateNotAcceptable d re), hardResetToCommit (getCurrentCommitHash w0) w0)"
    using run_reaches_apply [OF h(1-5)] h(6,8)
    by (simp add: apply_phase_def processDates_def fd Let_def)
  show "\<exists>d re. fst (run cfg tz now f w) = Rolled_Back (DateNotAcceptable d re)"
    using r by simp
  show "head (snd (run cfg tz now f w)) = head w0"
    using r by (simp add: hardResetToCommit_def getCurrentCommitHash_def)
  show "ops (snd (run cfg tz now f w)) = ops w0 @ [HardReset (head w0)]"
    using r by (simp add: hardResetToCommit_def getCurrentCommitHash_def)
qed

lemma example_range_facts:
  "prepare_dates 0 ''+'' [''1960-01-01''] = Inr [Time (- 315615600000)]"
  "check_date 0 example_now (Time (- 315615600000)) = Some BeforeMin"
  "fst (run (example_config [''23.12.1990'']) 0 example_now no_faults fresh_world) =
     Module_Failed InvalidInputFormat"
  "ops (snd (preflight (example_config [''23.12.1990'']) fresh_world)) =
     [GitInit, GitCommit (Future ''INIT'')]"
  by code_simp+

theorem errors_before_apply_witness:
  "ops (snd (run (example_config [''23.12.1990'']) 0 example_now no_faults fresh_world)) =
     [GitInit, GitCommit (Future ''INIT'')] \<and>
   head (snd (run (example_config [''1960-01-01'']) 0 example_now no_faults example_world)) =
     [Future ''INIT''] \<and>
   ops (snd (run (example_config [''1960-01-01'']) 0 example_now no_faults example_world)) =
     [HardReset [Future ''INIT'']]"
proof -
  note t1 = errors_before_apply [of "example_config [''23.12.1990'']" 0 example_now no_faults fresh_world]
  have "snd (run (example_config [''23.12.1990'']) 0 example_now no_faults fresh_world) =
      snd (preflight (example_config [''23.12.1990'']) fresh_world)"
    using t1 example_range_facts(3) by blast
  then have a: "ops (snd (run (example_config [''23.12.1990'']) 0 example_now no_faults fresh_world)) =
     [GitInit, GitCommit (Future ''INIT'')]"
    using example_range_facts(4) by simp
  note t2 = errors_before_apply [of "example_config [''1960-01-01'']" 0 example_now no_faults
      example_world example_world "[Time (- 315615600000)]"]
  have p: "prepare_dates 0 (direction (example_config [''1960-01-01'']))
      (positional (example_config [''1960-01-01''])) = Inr [Time (- 315615600000)]"
    using example_range_facts(1) by (simp add: example_run_facts)
  have q: "\<exists>d\<in>set [Time (- 315615600000)]. check_date 0 example_now d \<noteq> None"
    using example_range_facts(2) by simp
  have n: "positional (example_config [''1960-01-01'']) \<noteq> []" by (simp add: example_run_facts)
  have "head (snd (run (example_config [''1960-01-01'']) 0 example_now no_faults example_world)) =
      head example_world \<and>
    ops (snd (run (example_config [''1960-01-01'']) 0 example_now no_faults example_world)) =
      ops example_world @ [HardReset (head example_world)]"
    using t2 example_run_facts(1,2,3,4,9) p q n by blast
  with a show ?thesis by (simp add: example_run_facts)
qed

text \<open>
  C8 as stated fails twice. A date of 1960 without \<open>let-it-go\<close> ends in the hard reset; and
  in a directory that is no repository yet, an item of a wrong format is met only after
  \<open>git init\<close> and the first commit have run.
\<close>

theorem range_error_resets_counterexample:
  "fst (run (example_config [''1960-01-01'']) 0 example_now no_faults example_world) =
     Rolled_Back (DateNotAcceptable (Time (- 315615600000)) BeforeMin) \<and>
   ops (snd (run (example_config [''1960-01-01'']) 0 example_now no_faults example_world)) =
     [HardReset [Future ''INIT'']] \<and>
   fst (run (example_config [''23.12.1990'']) 0 example_now no_faults fresh_world) =
     Module_Failed InvalidInputFormat \<and>
   ops (snd (run (example_config [''23.12.1990'']) 0 example_now no_faults fresh_world)) =
     [GitInit, GitCommit (Future ''INIT'')]"
  by code_simp

section \<open>Properties of \<open>formatMilliseconds\<close>\<close>


lemma mod_3600_div_60: "(t mod 3600) div 60 = (t div 60) mod (60::int)"
proof -
  have "t mod 3600 = t mod (60 * 60)" by simp
  also have "\<dots> = 60 * ((t div 60) mod 60) + t mod 60"
    by (rule zmod_zmult2_eq) simp
  finally show ?thesis by simp
qed






end
